theory Spec2Isabelle
  imports Main "HOL-Library.Sublist"
begin

section \<open>The page, as script.js reads and writes it\<close>

text \<open>
  The validator of \<^verbatim>\<open>src/js/script.js\<close> works on a web page. The part of the page
  that rule callbacks read (which elements exist, their tag names and parents, the
  \<^verbatim>\<open>.value\<close> of a control, how many activity checkboxes are ticked) is the record
  \<open>doc\<close>; the validator never writes it. The part the validator writes (class lists,
  hint elements, the console) lives in the validator's \<open>state\<close> below. A DOM element is
  identified by a number. Strings are lists of code units below 256, so \<open>length\<close> is the
  JavaScript \<^verbatim>\<open>.length\<close> on them.
\<close>

type_synonym node = nat

datatype js_error = TypeError | SyntaxError | Thrown string

text \<open>
  A hint element, as \<^verbatim>\<open>showHint\<close> creates it: its tag, classes, text and attributes,
  and the element it is appended to.
\<close>

record hint_element =
  hint_tag :: string
  hint_classes :: "string list"
  innerText :: string
  hint_attributes :: "(string \<times> string) list"
  hint_parent :: node

record doc =
  form_elements :: "string \<Rightarrow> node option"
  getElementById :: "string \<Rightarrow> node option"
  tagName :: "node \<Rightarrow> string"
  parentElement :: "node \<Rightarrow> node"
  node_value :: "node \<Rightarrow> string option"
  checked_activities :: "node \<Rightarrow> nat"
  querySelectorAll ::
    "string \<Rightarrow> js_error + ((node \<Rightarrow> string list) \<Rightarrow> hint_element list \<Rightarrow> hint_element \<Rightarrow> bool)"

text \<open>
  \<open>form_elements d x\<close> is \<^verbatim>\<open>this.form.elements[x]\<close> and \<open>getElementById d x\<close> is
  \<^verbatim>\<open>document.getElementById(x)\<close>; \<open>None\<close> stands for \<^verbatim>\<open>undefined\<close> and
  \<^verbatim>\<open>null\<close>. \<open>node_value d n\<close> is \<^verbatim>\<open>n.value\<close>, \<open>None\<close> for an element without that
  property. \<open>checked_activities d n\<close> is the length of
  \<^verbatim>\<open>n.querySelectorAll('#activities input[type="checkbox"]:checked')\<close>.

  \<open>querySelectorAll d sel\<close> is the browser's \<^verbatim>\<open>document.querySelectorAll(sel)\<close>, a
  built-in that script.js does not define: \<open>Inl SyntaxError\<close> when \<open>sel\<close> is not a
  selector (the browser decides this from the string alone), otherwise the test that
  tells, on a page with the given class lists and hint elements, which hint elements
  \<open>sel\<close> selects. The selection is read among the hint elements only: the fields, their
  labels and the payment selector are taken not to be selected by the strings that
  \<^verbatim>\<open>removeHint\<close> builds, so that they stay in the document and \<open>doc\<close> stays what the
  callbacks read.
\<close>

section \<open>Rules, validators, error records\<close>

text \<open>
  A rule is the object \<^verbatim>\<open>{condition?, method, message}\<close>. Its callbacks may throw, so
  they return a sum with the thrown error on the left. The field \<^verbatim>\<open>method\<close> is called
  \<open>method_of\<close> here.
\<close>

record rule =
  condition :: "(doc \<Rightarrow> js_error + bool) option"
  method_of :: "doc \<Rightarrow> node option \<Rightarrow> js_error + bool"
  message :: string

record validator =
  fieldId :: string
  rules :: "rule list"
  field :: "node option"

datatype error = Error (error_fieldId: string) (error_message: string)

text \<open>
  The callbacks a pass invokes are recorded, in order, in a list the source does not
  have: \<open>FormCondition i j\<close> and \<open>FormMethod i j\<close> for the condition and the method of
  rule \<open>j\<close> of validator \<open>i\<close> (the loop variables \<^verbatim>\<open>elementIndex\<close> and \<^verbatim>\<open>rulesIndex\<close>
  of \<^verbatim>\<open>validateForm\<close>), \<open>FieldCondition f j\<close> and \<open>FieldMethod f j\<close> for rule \<open>j\<close> in
  \<^verbatim>\<open>validateField(f)\<close>.
\<close>

datatype call =
  FormCondition nat nat
| FormMethod nat nat
| FieldCondition string nat
| FieldMethod string nat

text \<open>
  The state: \<^verbatim>\<open>this.validators\<close>, \<^verbatim>\<open>this.errors\<close> (\<open>None\<close> while it is
  \<^verbatim>\<open>undefined\<close>, as the constructor leaves it), the class list of every element, the
  hint elements of the page, the arguments of each \<^verbatim>\<open>console.warn\<close>, and the calls.
\<close>

record state =
  validators :: "validator list"
  errors :: "error list option"
  classList :: "node \<Rightarrow> string list"
  hints :: "hint_element list"
  console :: "string list list"
  calls :: "call list"

section \<open>FormValidator: presentation\<close>

definition class_add :: "string \<Rightarrow> string list \<Rightarrow> string list" where
  "class_add c cs = (if c \<in> set cs then cs else cs @ [c])"

definition class_remove :: "string \<Rightarrow> string list \<Rightarrow> string list" where
  "class_remove c cs = removeAll c cs"

definition update_classes :: "node \<Rightarrow> (string list \<Rightarrow> string list) \<Rightarrow> state \<Rightarrow> state" where
  "update_classes n f s = s\<lparr>classList := (classList s)(n := f (classList s n))\<rparr>"

text \<open>
  \<^verbatim>\<open>element.tagName === 'INPUT' ? element.parentElement : element\<close>. An input of
  the page has a parent, so \<open>parentElement\<close> is total.
\<close>

definition label_of :: "doc \<Rightarrow> node \<Rightarrow> node" where
  "label_of d n = (if tagName d n = ''INPUT'' then parentElement d n else n)"

text \<open>The template string \<^verbatim>\<open>`.${fieldId}-hint`\<close> of line 27.\<close>

definition hint_selector :: "string \<Rightarrow> string" where
  "hint_selector fid = ''.'' @ fid @ ''-hint''"

text \<open>
  \<^verbatim>\<open>removeHint(fieldId)\<close>, lines 24-28:
  \<^verbatim>\<open>document.querySelectorAll(`.${fieldId}-hint`).forEach(el => el.remove())\<close>. The
  call throws a SyntaxError when the string is not a selector, as for the identifier
  \<^verbatim>\<open>1st\<close>; otherwise every selected element is removed. What the string selects is
  the browser's to say: for \<^verbatim>\<open>name\<close> the elements of class \<^verbatim>\<open>name-hint\<close>, for
  \<^verbatim>\<open>a.b\<close> the elements of class \<^verbatim>\<open>a\<close> and class \<^verbatim>\<open>b-hint\<close>.
\<close>

definition removeHint :: "doc \<Rightarrow> string \<Rightarrow> state \<Rightarrow> (js_error + unit) \<times> state" where
  "removeHint d fid s =
     (case querySelectorAll d (hint_selector fid) of
        Inl e \<Rightarrow> (Inl e, s)
      | Inr selected \<Rightarrow>
          (Inr (), s\<lparr>hints := filter (\<lambda>h. \<not> selected (classList s) (hints s) h) (hints s)\<rparr>))"

text \<open>
  \<^verbatim>\<open>showHint(fieldId, error)\<close>, lines 89-116. \<^verbatim>\<open>document.getElementById(fieldId)\<close> may
  be \<^verbatim>\<open>null\<close>; reading its \<^verbatim>\<open>classList\<close> then throws a TypeError.
\<close>

definition showHint :: "doc \<Rightarrow> string \<Rightarrow> rule \<Rightarrow> state \<Rightarrow> (js_error + unit) \<times> state" where
  "showHint d fid err s =
     (case getElementById d fid of
        None \<Rightarrow> (Inl TypeError, s)
      | Some el \<Rightarrow>
          (let s1 = update_classes el (class_add ''error'') s;
               element = label_of d el;
               s2 = update_classes element (class_remove ''valid'') s1;
               s3 = update_classes element (class_add ''not-valid'') s2;
               hint = \<lparr>hint_tag = (if tagName d element = ''FIELDSET'' then ''p'' else ''span''),
                       hint_classes = [''hint'', fid @ ''-hint''],
                       innerText = message err,
                       hint_attributes = [(''role'', ''status''), (''aria-live'', ''polite''),
                                          (''style'', ''display:block'')],
                       hint_parent = element\<rparr>
           in (Inr (), s3\<lparr>hints := hints s3 @ [hint]\<rparr>)))"

text \<open>
  \<^verbatim>\<open>showValid(formElement)\<close>, lines 118-129. The argument is a validator's
  \<^verbatim>\<open>field\<close>, which is \<^verbatim>\<open>undefined\<close> when the form has no such element; reading
  \<^verbatim>\<open>classList\<close> of it throws a TypeError.
\<close>

definition showValid :: "doc \<Rightarrow> node option \<Rightarrow> state \<Rightarrow> (js_error + unit) \<times> state" where
  "showValid d formElement s =
     (case formElement of
        None \<Rightarrow> (Inl TypeError, s)
      | Some el \<Rightarrow>
          (let s1 = update_classes el (class_remove ''error'') s;
               element = label_of d el;
               s2 = update_classes element (class_remove ''valid'') s1;
               s3 = update_classes element (class_remove ''not-valid'') s2
           in (Inr (), update_classes element (class_add ''valid'') s3)))"

section \<open>FormValidator: the registry\<close>

text \<open>\<^verbatim>\<open>addValidator(element, rules)\<close>, lines 131-140.\<close>

definition addValidator :: "doc \<Rightarrow> string \<Rightarrow> rule list \<Rightarrow> state \<Rightarrow> state" where
  "addValidator d element rs s =
     s\<lparr>validators := validators s @
          [\<lparr>fieldId = element, rules = rs, field = form_elements d element\<rparr>]\<rparr>"

text \<open>
  \<^verbatim>\<open>this.validators.find(validator => validator.fieldId === fieldId)\<close>, line 186.
\<close>

definition find_validator :: "validator list \<Rightarrow> string \<Rightarrow> validator option" where
  "find_validator vs fid = find (\<lambda>v. fieldId v = fid) vs"

section \<open>FormValidator: evaluation\<close>

text \<open>
  The test \<^verbatim>\<open>rule.condition && !rule.condition()\<close> of lines 159 and 193: true when
  the rule is to be skipped. The call is recorded under \<open>tag\<close>.
\<close>

definition condition_not_met :: "doc \<Rightarrow> call \<Rightarrow> rule \<Rightarrow> state \<Rightarrow> (js_error + bool) \<times> state" where
  "condition_not_met d tag r s =
     (case condition r of
        None \<Rightarrow> (Inr False, s)
      | Some c \<Rightarrow>
          (case c d of
             Inl e \<Rightarrow> (Inl e, s\<lparr>calls := calls s @ [tag]\<rparr>)
           | Inr b \<Rightarrow> (Inr (\<not> b), s\<lparr>calls := calls s @ [tag]\<rparr>)))"

text \<open>The call \<^verbatim>\<open>rule.method(field)\<close> of lines 164 and 198.\<close>

definition call_method :: "doc \<Rightarrow> call \<Rightarrow> rule \<Rightarrow> node option \<Rightarrow> state \<Rightarrow> (js_error + bool) \<times> state" where
  "call_method d tag r fo s = (method_of r d fo, s\<lparr>calls := calls s @ [tag]\<rparr>)"

text \<open>
  \<^verbatim>\<open>this.errors.push({fieldId, message})\<close>, lines 166-169; it throws when
  \<^verbatim>\<open>this.errors\<close> is \<^verbatim>\<open>undefined\<close>.
\<close>

definition push_error :: "error \<Rightarrow> state \<Rightarrow> (js_error + unit) \<times> state" where
  "push_error e s =
     (case errors s of
        None \<Rightarrow> (Inl TypeError, s)
      | Some es \<Rightarrow> (Inr (), s\<lparr>errors := Some (es @ [e])\<rparr>))"

text \<open>
  The inner loop of \<^verbatim>\<open>validateForm\<close>, lines 157-178, from rule index \<open>ri\<close> on; the
  list is the rules still to visit. \<^verbatim>\<open>continue\<close> and the end of the body go on with the
  next rule, \<^verbatim>\<open>break\<close> leaves the loop.
\<close>

fun validateForm_rules ::
  "doc \<Rightarrow> nat \<Rightarrow> validator \<Rightarrow> nat \<Rightarrow> rule list \<Rightarrow> state \<Rightarrow> (js_error + unit) \<times> state" where
  "validateForm_rules d ei element ri [] s = (Inr (), s)"
| "validateForm_rules d ei element ri (r # rs) s =
     (case condition_not_met d (FormCondition ei ri) r s of
        (Inl e, s1) \<Rightarrow> (Inl e, s1)
      | (Inr skip, s1) \<Rightarrow>
          if skip then validateForm_rules d ei element (Suc ri) rs s1
          else (case call_method d (FormMethod ei ri) r (field element) s1 of
                  (Inl e, s2) \<Rightarrow> (Inl e, s2)
                | (Inr ok, s2) \<Rightarrow>
                    if \<not> ok then push_error (Error (fieldId element) (message r)) s2
                    else (case showValid d (field element) s2 of
                            (Inl e, s3) \<Rightarrow> (Inl e, s3)
                          | (Inr u, s3) \<Rightarrow> validateForm_rules d ei element (Suc ri) rs s3)))"

text \<open>The outer loop of \<^verbatim>\<open>validateForm\<close>, lines 152-179, from \<open>elementIndex = ei\<close> on.\<close>

fun validateForm_elements ::
  "doc \<Rightarrow> nat \<Rightarrow> validator list \<Rightarrow> state \<Rightarrow> (js_error + unit) \<times> state" where
  "validateForm_elements d ei [] s = (Inr (), s)"
| "validateForm_elements d ei (element # rest) s =
     (case validateForm_rules d ei element 0 (rules element) s of
        (Inl e, s1) \<Rightarrow> (Inl e, s1)
      | (Inr u, s1) \<Rightarrow> validateForm_elements d (Suc ei) rest s1)"

text \<open>
  \<^verbatim>\<open>validateForm()\<close>, lines 142-182: \<^verbatim>\<open>this.errors = []\<close>, the loops, then
  \<^verbatim>\<open>return this.errors.length === 0\<close>.
\<close>

definition validateForm :: "doc \<Rightarrow> state \<Rightarrow> (js_error + bool) \<times> state" where
  "validateForm d s =
     (case validateForm_elements d 0 (validators s) (s\<lparr>errors := Some []\<rparr>) of
        (Inl e, s1) \<Rightarrow> (Inl e, s1)
      | (Inr u, s1) \<Rightarrow>
          (case errors s1 of
             None \<Rightarrow> (Inl TypeError, s1)
           | Some es \<Rightarrow> (Inr (length es = 0), s1)))"

text \<open>The loop of \<^verbatim>\<open>validateField\<close>, lines 191-212.\<close>

fun validateField_rules ::
  "doc \<Rightarrow> string \<Rightarrow> validator \<Rightarrow> nat \<Rightarrow> rule list \<Rightarrow> state \<Rightarrow> (js_error + unit) \<times> state" where
  "validateField_rules d fid v ri [] s = (Inr (), s)"
| "validateField_rules d fid v ri (r # rs) s =
     (case condition_not_met d (FieldCondition fid ri) r s of
        (Inl e, s1) \<Rightarrow> (Inl e, s1)
      | (Inr skip, s1) \<Rightarrow>
          if skip then validateField_rules d fid v (Suc ri) rs s1
          else (case call_method d (FieldMethod fid ri) r (field v) s1 of
                  (Inl e, s2) \<Rightarrow> (Inl e, s2)
                | (Inr ok, s2) \<Rightarrow>
                    if \<not> ok
                    then (case removeHint d fid s2 of
                            (Inl e, s3) \<Rightarrow> (Inl e, s3)
                          | (Inr u, s3) \<Rightarrow> showHint d fid r s3)
                    else (case showValid d (field v) s2 of
                            (Inl e, s3) \<Rightarrow> (Inl e, s3)
                          | (Inr u, s3) \<Rightarrow>
                              (case removeHint d fid s3 of
                                 (Inl e, s4) \<Rightarrow> (Inl e, s4)
                               | (Inr w, s4) \<Rightarrow> validateField_rules d fid v (Suc ri) rs s4))))"

text \<open>\<^verbatim>\<open>validateField(fieldId)\<close>, lines 184-214.\<close>

definition validateField :: "doc \<Rightarrow> string \<Rightarrow> state \<Rightarrow> (js_error + unit) \<times> state" where
  "validateField d fid s =
     (case find_validator (validators s) fid of
        None \<Rightarrow>
          (Inr (), s\<lparr>console := console s @ [[''No validator found for field with id:'', fid]]\<rparr>)
      | Some v \<Rightarrow> validateField_rules d fid v 0 (rules v) s)"

section \<open>JavaScript strings and regular expressions\<close>

text \<open>\<^verbatim>\<open>s.indexOf(c)\<close> and \<^verbatim>\<open>s.lastIndexOf(c)\<close> for a one-character \<open>c\<close>.\<close>

definition indexOf :: "string \<Rightarrow> char \<Rightarrow> int" where
  "indexOf s c = (if c \<in> set s then int (length (takeWhile (\<lambda>x. x \<noteq> c) s)) else - 1)"

definition lastIndexOf :: "string \<Rightarrow> char \<Rightarrow> int" where
  "lastIndexOf s c =
     (if c \<in> set s then int (length s) - 1 - int (length (takeWhile (\<lambda>x. x \<noteq> c) (rev s)))
      else - 1)"

text \<open>
  Regular expressions over character classes, matched by derivatives. Every pattern of
  script.js is anchored at both ends (\<^verbatim>\<open>^...$\<close>, no flag \<^verbatim>\<open>m\<close>), so
  \<^verbatim>\<open>pattern.test(s)\<close> asks whether the whole of \<open>s\<close> matches.
\<close>

datatype regex =
  Nothing
| Empty
| Class "char \<Rightarrow> bool"
| Alt regex regex
| Seq regex regex
| Star regex

fun nullable :: "regex \<Rightarrow> bool" where
  "nullable Nothing = False"
| "nullable Empty = True"
| "nullable (Class p) = False"
| "nullable (Alt a b) = (nullable a \<or> nullable b)"
| "nullable (Seq a b) = (nullable a \<and> nullable b)"
| "nullable (Star a) = True"

fun deriv :: "char \<Rightarrow> regex \<Rightarrow> regex" where
  "deriv c Nothing = Nothing"
| "deriv c Empty = Nothing"
| "deriv c (Class p) = (if p c then Empty else Nothing)"
| "deriv c (Alt a b) = Alt (deriv c a) (deriv c b)"
| "deriv c (Seq a b) =
     (if nullable a then Alt (Seq (deriv c a) b) (deriv c b) else Seq (deriv c a) b)"
| "deriv c (Star a) = Seq (deriv c a) (Star a)"

fun matches :: "regex \<Rightarrow> string \<Rightarrow> bool" where
  "matches r [] = nullable r"
| "matches r (c # cs) = matches (deriv c r) cs"

definition one_or_more :: "regex \<Rightarrow> regex" where
  "one_or_more r = Seq r (Star r)"

fun exactly :: "nat \<Rightarrow> regex \<Rightarrow> regex" where
  "exactly 0 r = Empty"
| "exactly (Suc n) r = Seq r (exactly n r)"

fun at_most :: "nat \<Rightarrow> regex \<Rightarrow> regex" where
  "at_most 0 r = Empty"
| "at_most (Suc n) r = Alt Empty (Seq r (at_most n r))"

definition between :: "nat \<Rightarrow> nat \<Rightarrow> regex \<Rightarrow> regex" where
  "between m n r = Seq (exactly m r) (at_most (n - m) r)"

definition in_range :: "char \<Rightarrow> char \<Rightarrow> char \<Rightarrow> bool" where
  "in_range lo hi c = ((of_char lo :: nat) \<le> of_char c \<and> (of_char c :: nat) \<le> of_char hi)"

definition letter :: "char \<Rightarrow> bool" where
  "letter c = (in_range CHR ''a'' CHR ''z'' c \<or> in_range CHR ''A'' CHR ''Z'' c)"

definition digit :: "char \<Rightarrow> bool" where
  "digit c = in_range CHR ''0'' CHR ''9'' c"

text \<open>
  The class \<^verbatim>\<open>\s\<close> on code units below 256: tab, line feed, vertical tab, form feed,
  carriage return, space and no-break space.
\<close>

definition white_space :: "char \<Rightarrow> bool" where
  "white_space c = ((of_char c :: nat) \<in> {9, 10, 11, 12, 13, 32, 160})"

text \<open>\<^verbatim>\<open>/^[a-zA-Z\-.'\s]+$/\<close>\<close>

definition name_pattern :: regex where
  "name_pattern =
     one_or_more (Class (\<lambda>c. letter c \<or> c = CHR ''-'' \<or> c = CHR ''.'' \<or> c = CHR 0x27 \<or> white_space c))"

text \<open>
  \<^verbatim>\<open>/^[^@]+@[^@.]+\.[a-z]+$/i\<close>. Under the flag \<^verbatim>\<open>i\<close> (and without \<^verbatim>\<open>u\<close>) the
  class \<^verbatim>\<open>[a-z]\<close> matches exactly the letters a-z and A-Z.
\<close>

definition email_pattern :: regex where
  "email_pattern =
     Seq (one_or_more (Class (\<lambda>c. c \<noteq> CHR ''@'')))
       (Seq (Class (\<lambda>c. c = CHR ''@''))
          (Seq (one_or_more (Class (\<lambda>c. c \<noteq> CHR ''@'' \<and> c \<noteq> CHR ''.'')))
             (Seq (Class (\<lambda>c. c = CHR ''.'')) (one_or_more (Class letter)))))"

text \<open>\<^verbatim>\<open>/^\d{13,16}$/\<close>\<close>

definition cc_num_pattern :: regex where
  "cc_num_pattern = between 13 16 (Class digit)"

section \<open>The rules of the registration form\<close>

text \<open>
  What the callbacks of \<^verbatim>\<open>addRegFormValidationRules\<close> read. \<^verbatim>\<open>field.value\<close> throws a
  TypeError when \<^verbatim>\<open>field\<close> is \<^verbatim>\<open>undefined\<close>; \<^verbatim>\<open>.length\<close> and \<^verbatim>\<open>.indexOf\<close> throw
  when the value is \<^verbatim>\<open>undefined\<close>; \<^verbatim>\<open>test\<close> converts its argument to a
  string, \<^verbatim>\<open>undefined\<close> to \<^verbatim>\<open>"undefined"\<close>.
\<close>

definition field_value :: "doc \<Rightarrow> node option \<Rightarrow> js_error + string option" where
  "field_value d fo = (case fo of None \<Rightarrow> Inl TypeError | Some n \<Rightarrow> Inr (node_value d n))"

definition value_string :: "doc \<Rightarrow> node option \<Rightarrow> js_error + string" where
  "value_string d fo =
     (case field_value d fo of
        Inl e \<Rightarrow> Inl e
      | Inr None \<Rightarrow> Inl TypeError
      | Inr (Some v) \<Rightarrow> Inr v)"

definition on_string :: "(string \<Rightarrow> bool) \<Rightarrow> doc \<Rightarrow> node option \<Rightarrow> js_error + bool" where
  "on_string p d fo = (case value_string d fo of Inl e \<Rightarrow> Inl e | Inr v \<Rightarrow> Inr (p v))"

definition regex_test :: "regex \<Rightarrow> doc \<Rightarrow> node option \<Rightarrow> js_error + bool" where
  "regex_test r d fo =
     (case field_value d fo of
        Inl e \<Rightarrow> Inl e
      | Inr None \<Rightarrow> Inr (matches r ''undefined'')
      | Inr (Some v) \<Rightarrow> Inr (matches r v))"

text \<open>
  \<^verbatim>\<open>!isNaN(field.value)\<close>. The built-in \<^verbatim>\<open>isNaN\<close> on strings is a parameter;
  \<^verbatim>\<open>isNaN(undefined)\<close> is true.
\<close>

definition not_isNaN :: "(string \<Rightarrow> bool) \<Rightarrow> doc \<Rightarrow> node option \<Rightarrow> js_error + bool" where
  "not_isNaN isNaN d fo =
     (case field_value d fo of
        Inl e \<Rightarrow> Inl e
      | Inr None \<Rightarrow> Inr False
      | Inr (Some v) \<Rightarrow> Inr (\<not> isNaN v))"

text \<open>\<^verbatim>\<open>() => document.getElementById('payment').value === 'credit-card'\<close>\<close>

definition credit_card_selected :: "doc \<Rightarrow> js_error + bool" where
  "credit_card_selected d =
     (case getElementById d ''payment'' of
        None \<Rightarrow> Inl TypeError
      | Some p \<Rightarrow> Inr (node_value d p = Some ''credit-card''))"

definition name_rules :: "rule list" where
  "name_rules =
     [\<lparr>condition = None,
       method_of = on_string (\<lambda>v. length v > 0),
       message = ''Name is required''\<rparr>,
      \<lparr>condition = None,
       method_of = on_string (\<lambda>v. length v \<ge> 3),
       message = ''Name must be at least 3 characters long''\<rparr>,
      \<lparr>condition = None,
       method_of = regex_test name_pattern,
       message = ''Name should only contain letters, spaces, hyphens, periods, and apostrophes''\<rparr>]"

definition email_rules :: "rule list" where
  "email_rules =
     [\<lparr>condition = None,
       method_of = on_string (\<lambda>v. length v > 0),
       message = ''Email is required''\<rparr>,
      \<lparr>condition = None,
       method_of = on_string (\<lambda>v. indexOf v CHR ''@'' > - 1),
       message = ''Enter the 'at' symbol in the email address.''\<rparr>,
      \<lparr>condition = None,
       method_of = on_string (\<lambda>v. indexOf v CHR ''@'' \<noteq> 0),
       message = ''The 'at' symbol should not appear at the beginning.''\<rparr>,
      \<lparr>condition = None,
       method_of = on_string (\<lambda>v. indexOf v CHR ''.'' > - 1),
       message = ''Enter the 'dot' symbol in the email address.''\<rparr>,
      \<lparr>condition = None,
       method_of = on_string (\<lambda>v. indexOf v CHR ''@'' < indexOf v CHR ''.''),
       message = ''The 'at' symbol must be before the 'dot' symbol.''\<rparr>,
      \<lparr>condition = None,
       method_of = on_string (\<lambda>v. indexOf v CHR ''@'' = lastIndexOf v CHR ''@''),
       message = ''The 'at' symbol should only appear once.''\<rparr>,
      \<lparr>condition = None,
       method_of = regex_test email_pattern,
       message = ''Email address must be formatted correctly''\<rparr>]"

definition activities_rules :: "rule list" where
  "activities_rules =
     [\<lparr>condition = None,
       method_of = (\<lambda>d fo. case fo of None \<Rightarrow> Inl TypeError
                                    | Some n \<Rightarrow> Inr (checked_activities d n > 0)),
       message = ''Choose at least one activity''\<rparr>]"

definition cc_num_rules :: "(string \<Rightarrow> bool) \<Rightarrow> rule list" where
  "cc_num_rules isNaN =
     [\<lparr>condition = Some credit_card_selected,
       method_of = on_string (\<lambda>v. length v > 0),
       message = ''Credit card number is required''\<rparr>,
      \<lparr>condition = Some credit_card_selected,
       method_of = not_isNaN isNaN,
       message = ''Credit card number must be a number''\<rparr>,
      \<lparr>condition = Some credit_card_selected,
       method_of = regex_test cc_num_pattern,
       message = ''Credit card number must be between 13 - 16 digits''\<rparr>]"

definition zip_rules :: "(string \<Rightarrow> bool) \<Rightarrow> rule list" where
  "zip_rules isNaN =
     [\<lparr>condition = Some credit_card_selected,
       method_of = on_string (\<lambda>v. length v > 0),
       message = ''Zip code is required''\<rparr>,
      \<lparr>condition = Some credit_card_selected,
       method_of = not_isNaN isNaN,
       message = ''Zip code must be a number''\<rparr>,
      \<lparr>condition = Some credit_card_selected,
       method_of = on_string (\<lambda>v. length v = 5),
       message = ''Zip code must be 5 digits''\<rparr>]"

definition cvv_rules :: "(string \<Rightarrow> bool) \<Rightarrow> rule list" where
  "cvv_rules isNaN =
     [\<lparr>condition = Some credit_card_selected,
       method_of = on_string (\<lambda>v. length v > 0),
       message = ''CVV is required''\<rparr>,
      \<lparr>condition = Some credit_card_selected,
       method_of = not_isNaN isNaN,
       message = ''CVV must be a number''\<rparr>,
      \<lparr>condition = Some credit_card_selected,
       method_of = on_string (\<lambda>v. length v = 3),
       message = ''CVV must be 3 digits''\<rparr>]"

text \<open>\<^verbatim>\<open>addRegFormValidationRules(regFormValidator)\<close>, lines 319-448.\<close>

definition addRegFormValidationRules :: "(string \<Rightarrow> bool) \<Rightarrow> doc \<Rightarrow> state \<Rightarrow> state" where
  "addRegFormValidationRules isNaN d s =
     addValidator d ''cvv'' (cvv_rules isNaN)
       (addValidator d ''zip'' (zip_rules isNaN)
          (addValidator d ''cc-num'' (cc_num_rules isNaN)
             (addValidator d ''activities'' activities_rules
                (addValidator d ''email'' email_rules
                   (addValidator d ''name'' name_rules s)))))"

section \<open>What one rule does in a pass\<close>

text \<open>
  The vocabulary of the theorems. For a page \<open>d\<close> and a validator's \<open>field\<close>, a rule is
  \<open>Skipped\<close> when it has a condition and the condition returns false; \<open>Failed\<close> when its
  condition (if any) returns true and its method returns false; \<open>Passed\<close> when its
  condition (if any) returns true, its method returns true and \<^verbatim>\<open>showValid(field)\<close> does
  not throw; \<open>Threw e\<close> when the condition, the method or \<^verbatim>\<open>showValid\<close> throws \<open>e\<close>.
\<close>

datatype outcome = Skipped | Passed | Failed | Threw js_error

definition method_outcome :: "doc \<Rightarrow> node option \<Rightarrow> rule \<Rightarrow> outcome" where
  "method_outcome d fo r =
     (case method_of r d fo of
        Inl e \<Rightarrow> Threw e
      | Inr ok \<Rightarrow>
          if \<not> ok then Failed
          else (case fo of None \<Rightarrow> Threw TypeError | Some n \<Rightarrow> Passed))"

definition outcome :: "doc \<Rightarrow> node option \<Rightarrow> rule \<Rightarrow> outcome" where
  "outcome d fo r =
     (case condition r of
        None \<Rightarrow> method_outcome d fo r
      | Some c \<Rightarrow>
          (case c d of
             Inl e \<Rightarrow> Threw e
           | Inr b \<Rightarrow> if b then method_outcome d fo r else Skipped))"

text \<open>
  The callbacks invoked for one rule: its condition when it has one, then its method
  when the condition is absent or returned true.
\<close>

definition rule_calls :: "doc \<Rightarrow> call \<Rightarrow> call \<Rightarrow> rule \<Rightarrow> call list" where
  "rule_calls d ctag mtag r =
     (case condition r of
        None \<Rightarrow> [mtag]
      | Some c \<Rightarrow> if c d = Inr True then [ctag, mtag] else [ctag])"

text \<open>
  A pass over a rule list, told from the outcomes of its rules: whether it throws, the
  error record it pushes, and the callbacks it invokes.
\<close>

fun rules_result :: "doc \<Rightarrow> node option \<Rightarrow> rule list \<Rightarrow> js_error + unit" where
  "rules_result d fo [] = Inr ()"
| "rules_result d fo (r # rs) =
     (case outcome d fo r of
        Skipped \<Rightarrow> rules_result d fo rs
      | Passed \<Rightarrow> rules_result d fo rs
      | Failed \<Rightarrow> Inr ()
      | Threw e \<Rightarrow> Inl e)"

fun rules_errors :: "doc \<Rightarrow> validator \<Rightarrow> rule list \<Rightarrow> error list" where
  "rules_errors d v [] = []"
| "rules_errors d v (r # rs) =
     (case outcome d (field v) r of
        Skipped \<Rightarrow> rules_errors d v rs
      | Passed \<Rightarrow> rules_errors d v rs
      | Failed \<Rightarrow> [Error (fieldId v) (message r)]
      | Threw e \<Rightarrow> [])"

fun rules_calls :: "doc \<Rightarrow> node option \<Rightarrow> (nat \<Rightarrow> call) \<Rightarrow> (nat \<Rightarrow> call) \<Rightarrow> nat \<Rightarrow> rule list \<Rightarrow> call list" where
  "rules_calls d fo ctag mtag ri [] = []"
| "rules_calls d fo ctag mtag ri (r # rs) =
     rule_calls d (ctag ri) (mtag ri) r @
     (case outcome d fo r of
        Skipped \<Rightarrow> rules_calls d fo ctag mtag (Suc ri) rs
      | Passed \<Rightarrow> rules_calls d fo ctag mtag (Suc ri) rs
      | Failed \<Rightarrow> []
      | Threw e \<Rightarrow> [])"

fun form_result :: "doc \<Rightarrow> validator list \<Rightarrow> js_error + unit" where
  "form_result d [] = Inr ()"
| "form_result d (v # vs) =
     (case rules_result d (field v) (rules v) of
        Inl e \<Rightarrow> Inl e
      | Inr u \<Rightarrow> form_result d vs)"

fun form_errors :: "doc \<Rightarrow> validator list \<Rightarrow> error list" where
  "form_errors d [] = []"
| "form_errors d (v # vs) =
     rules_errors d v (rules v) @
     (case rules_result d (field v) (rules v) of
        Inl e \<Rightarrow> []
      | Inr u \<Rightarrow> form_errors d vs)"

fun form_calls :: "doc \<Rightarrow> nat \<Rightarrow> validator list \<Rightarrow> call list" where
  "form_calls d ei [] = []"
| "form_calls d ei (v # vs) =
     rules_calls d (field v) (FormCondition ei) (FormMethod ei) 0 (rules v) @
     (case rules_result d (field v) (rules v) of
        Inl e \<Rightarrow> []
      | Inr u \<Rightarrow> form_calls d (Suc ei) vs)"

text \<open>
  The callbacks \<^verbatim>\<open>validateField(f)\<close> invokes on a rule list. Its loop differs from the
  one of \<^verbatim>\<open>validateForm\<close> after a rule that passed: it then calls
  \<^verbatim>\<open>removeHint(f)\<close>, and stops there when that throws.
\<close>

fun field_calls :: "doc \<Rightarrow> string \<Rightarrow> node option \<Rightarrow> nat \<Rightarrow> rule list \<Rightarrow> call list" where
  "field_calls d f fo ri [] = []"
| "field_calls d f fo ri (r # rs) =
     rule_calls d (FieldCondition f ri) (FieldMethod f ri) r @
     (case outcome d fo r of
        Skipped \<Rightarrow> field_calls d f fo (Suc ri) rs
      | Passed \<Rightarrow>
          (case querySelectorAll d (hint_selector f) of
             Inl e \<Rightarrow> []
           | Inr selected \<Rightarrow> field_calls d f fo (Suc ri) rs)
      | Failed \<Rightarrow> []
      | Threw e \<Rightarrow> [])"

section \<open>Where an error record comes from\<close>

text \<open>
  The record a callback invocation leaves in \<^verbatim>\<open>this.errors\<close>: one record for a
  method that returned false, nothing for any other call.
\<close>

fun error_of_call :: "doc \<Rightarrow> validator list \<Rightarrow> call \<Rightarrow> error list" where
  "error_of_call d vs (FormMethod i j) =
     (if method_of (rules (vs ! i) ! j) d (field (vs ! i)) = Inr False
      then [Error (fieldId (vs ! i)) (message (rules (vs ! i) ! j))] else [])"
| "error_of_call d vs (FormCondition i j) = []"
| "error_of_call d vs (FieldCondition f j) = []"
| "error_of_call d vs (FieldMethod f j) = []"

section \<open>An example page\<close>

text \<open>
  \<^verbatim>\<open>new FormValidator(form)\<close>, lines 4-6, on a page with the given class lists and
  hint elements: no validators, \<^verbatim>\<open>this.errors\<close> not yet assigned.
\<close>

definition new_FormValidator :: "(node \<Rightarrow> string list) \<Rightarrow> hint_element list \<Rightarrow> state" where
  "new_FormValidator cl hs =
     \<lparr>validators = [], errors = None, classList = cl, hints = hs, console = [], calls = []\<rparr>"

text \<open>
  A stand-in for the browser's selector engine on the example page. It agrees with the
  browser on the strings that start with a dot and consist of dots, letters, digits,
  hyphens and underscores: such a string is a selector when every part between the dots
  is an identifier (it does not start with a digit, nor with a hyphen and a digit, and
  is not a lone hyphen), and then selects the elements that carry every part as a
  class. So \<^verbatim>\<open>.name-hint\<close> selects the elements of class \<^verbatim>\<open>name-hint\<close>,
  \<^verbatim>\<open>.a.b-hint\<close> those of class \<^verbatim>\<open>a\<close> and class \<^verbatim>\<open>b-hint\<close>, and
  \<^verbatim>\<open>.1st-hint\<close> throws. The stand-in refuses every other string; the examples use
  none.
\<close>

fun split_on :: "char \<Rightarrow> string \<Rightarrow> string list" where
  "split_on c [] = [[]]"
| "split_on c (x # xs) =
     (if x = c then [] # split_on c xs
      else (case split_on c xs of [] \<Rightarrow> [[x]] | y # ys \<Rightarrow> (x # y) # ys))"

definition name_start :: "char \<Rightarrow> bool" where
  "name_start c = (letter c \<or> c = CHR ''_'')"

definition name_char :: "char \<Rightarrow> bool" where
  "name_char c = (letter c \<or> digit c \<or> c = CHR ''-'' \<or> c = CHR ''_'')"

fun css_ident :: "string \<Rightarrow> bool" where
  "css_ident [] = False"
| "css_ident [c] = name_start c"
| "css_ident (c # c' # cs) =
     ((name_start c \<or> (c = CHR ''-'' \<and> (name_start c' \<or> c' = CHR ''-''))) \<and>
      list_all name_char (c' # cs))"

definition example_querySelectorAll ::
  "string \<Rightarrow> js_error + ((node \<Rightarrow> string list) \<Rightarrow> hint_element list \<Rightarrow> hint_element \<Rightarrow> bool)" where
  "example_querySelectorAll sel =
     (case sel of
        [] \<Rightarrow> Inl SyntaxError
      | c # cs \<Rightarrow>
          if c = CHR ''.'' \<and> list_all css_ident (split_on CHR ''.'' cs)
          then Inr (\<lambda>cl hs h. list_all (\<lambda>part. part \<in> set (hint_classes h)) (split_on CHR ''.'' cs))
          else Inl SyntaxError)"

text \<open>
  A page with the six fields of the form and the payment selector: name \<open>Al\<close>, email
  \<open>a.b@@c.com\<close>, one activity ticked, payment by PayPal, the card fields empty.
\<close>

definition example_elements :: "string \<Rightarrow> node option" where
  "example_elements =
     [''name'' \<mapsto> 0, ''email'' \<mapsto> 1, ''activities'' \<mapsto> 2, ''cc-num'' \<mapsto> 3,
      ''zip'' \<mapsto> 4, ''cvv'' \<mapsto> 5, ''payment'' \<mapsto> 6]"

definition example_doc :: doc where
  "example_doc =
     \<lparr>form_elements = example_elements,
      getElementById = example_elements,
      tagName = (\<lambda>n. if n = 2 then ''FIELDSET'' else if n = 6 then ''SELECT''
                      else if n < 6 then ''INPUT'' else ''LABEL''),
      parentElement = (\<lambda>n. n + 10),
      node_value = [0 \<mapsto> ''Al'', 1 \<mapsto> ''a.b@@c.com'', 3 \<mapsto> [], 4 \<mapsto> [], 5 \<mapsto> [],
                    6 \<mapsto> ''paypal''],
      checked_activities = (\<lambda>n. if n = 2 then 1 else 0),
      querySelectorAll = example_querySelectorAll\<rparr>"

text \<open>
  A stand-in for the built-in \<^verbatim>\<open>isNaN\<close> on the example page; it agrees with the
  built-in on strings of digits and on the empty string.
\<close>

definition example_isNaN :: "string \<Rightarrow> bool" where
  "example_isNaN v = (\<not> list_all digit v)"

definition example_state :: state where
  "example_state =
     addRegFormValidationRules example_isNaN example_doc (new_FormValidator (\<lambda>n. []) [])"

text \<open>
  A registry with the identifier \<open>name\<close> registered twice on the example page: first
  with the name rules, then with the email rules.
\<close>

definition example_duplicates :: state where
  "example_duplicates =
     addValidator example_doc ''name'' email_rules
       (addValidator example_doc ''name'' name_rules (new_FormValidator (\<lambda>n. []) []))"

text \<open>The example page with payment by credit card.\<close>

definition example_card_doc :: doc where
  "example_card_doc = example_doc\<lparr>node_value := (node_value example_doc)(6 \<mapsto> ''credit-card'')\<rparr>"

text \<open>
  A visit that ends in a submission without errors. The visitor has filled in the name
  \<open>Ann\<close> and the email \<open>ann@example.com\<close> and ticked one activity. With payment by
  credit card selected, the card number is left empty and checked on its own
  (\<open>example_card_page\<close>, \<open>example_edited\<close>); then the visitor selects PayPal
  (\<open>example_paypal_page\<close>) and the form is validated as a whole. The registry is the
  one of \<open>example_state\<close>: \<^verbatim>\<open>addValidator\<close> reads the elements of the form only, and
  these are the same on every page of the example.
\<close>

definition example_paypal_page :: doc where
  "example_paypal_page =
     example_doc\<lparr>node_value := (node_value example_doc)(0 \<mapsto> ''Ann'', 1 \<mapsto> ''ann@example.com'')\<rparr>"

definition example_card_page :: doc where
  "example_card_page =
     example_paypal_page\<lparr>node_value := (node_value example_paypal_page)(6 \<mapsto> ''credit-card'')\<rparr>"

definition example_edited :: state where
  "example_edited = snd (validateField example_card_page ''cc-num'' example_state)"

text \<open>
  The hint that \<^verbatim>\<open>showHint(f, error)\<close> appends to the label \<open>10\<close>, and a page state
  that holds just this hint.
\<close>

definition example_hint :: "string \<Rightarrow> hint_element" where
  "example_hint f =
     \<lparr>hint_tag = ''span'', hint_classes = [''hint'', f @ ''-hint''], innerText = ''Name is required'',
      hint_attributes = [(''role'', ''status''), (''aria-live'', ''polite''),
                         (''style'', ''display:block'')],
      hint_parent = 10\<rparr>"

definition example_hinted :: "string \<Rightarrow> state" where
  "example_hinted f = new_FormValidator (\<lambda>n. []) [example_hint f]"

text \<open>
  The example page with the name input under the identifier \<open>1st\<close>, which does not
  make a selector, and that identifier registered twice: first with the name rules,
  then with the email rules.
\<close>

definition example_1st_page :: doc where
  "example_1st_page =
     example_doc\<lparr>form_elements := [''1st'' \<mapsto> 0], getElementById := [''1st'' \<mapsto> 0]\<rparr>"

definition example_1st :: state where
  "example_1st =
     addValidator example_1st_page ''1st'' email_rules
       (addValidator example_1st_page ''1st'' name_rules (new_FormValidator (\<lambda>n. []) []))"

section \<open>The loops, told from the outcomes of the rules\<close>

lemma condition_not_met_eq:
  "condition_not_met d ctag r s =
     ((case condition r of None \<Rightarrow> Inr False
        | Some c \<Rightarrow> (case c d of Inl e \<Rightarrow> Inl e | Inr b \<Rightarrow> Inr (\<not> b))),
      s\<lparr>calls := calls s @ (case condition r of None \<Rightarrow> [] | Some c \<Rightarrow> [ctag])\<rparr>)"
  by (simp add: condition_not_met_def split: option.splits sum.splits)

lemma step_Skipped:
  "outcome d (field el) r = Skipped \<Longrightarrow>
   validateForm_rules d ei el ri (r # rs) s =
   validateForm_rules d ei el (Suc ri) rs
     (s\<lparr>calls := calls s @ rule_calls d (FormCondition ei ri) (FormMethod ei ri) r\<rparr>)"
  by (auto simp: outcome_def method_outcome_def rule_calls_def condition_not_met_def call_method_def
      split: option.splits sum.splits if_splits)

lemma step_Passed:
  "outcome d (field el) r = Passed \<Longrightarrow>
   validateForm_rules d ei el ri (r # rs) s =
   validateForm_rules d ei el (Suc ri) rs
     (snd (showValid d (field el)
        (s\<lparr>calls := calls s @ rule_calls d (FormCondition ei ri) (FormMethod ei ri) r\<rparr>)))"
  by (auto simp: outcome_def method_outcome_def rule_calls_def condition_not_met_def call_method_def showValid_def Let_def
      split: option.splits sum.splits if_splits)

lemma step_Failed:
  "outcome d (field el) r = Failed \<Longrightarrow>
   validateForm_rules d ei el ri (r # rs) s =
   push_error (Error (fieldId el) (message r))
     (s\<lparr>calls := calls s @ rule_calls d (FormCondition ei ri) (FormMethod ei ri) r\<rparr>)"
  by (auto simp: outcome_def method_outcome_def rule_calls_def condition_not_met_def call_method_def
      split: option.splits sum.splits if_splits)

lemma step_Threw:
  "outcome d (field el) r = Threw e \<Longrightarrow>
   validateForm_rules d ei el ri (r # rs) s =
   (Inl e, s\<lparr>calls := calls s @ rule_calls d (FormCondition ei ri) (FormMethod ei ri) r\<rparr>)"
  by (auto simp: outcome_def method_outcome_def rule_calls_def condition_not_met_def call_method_def showValid_def
      split: option.splits sum.splits if_splits)


lemma showValid_frame [simp]:
  "validators (snd (showValid d fo s)) = validators s"
  "errors (snd (showValid d fo s)) = errors s"
  "hints (snd (showValid d fo s)) = hints s"
  "console (snd (showValid d fo s)) = console s"
  "calls (snd (showValid d fo s)) = calls s"
  by (simp_all add: showValid_def update_classes_def Let_def split: option.splits)

lemma push_error_Some:
  "errors s = Some es \<Longrightarrow> push_error e s = (Inr (), s\<lparr>errors := Some (es @ [e])\<rparr>)"
  by (simp add: push_error_def)

lemma push_error_frame [simp]:
  "validators (snd (push_error e s)) = validators s"
  "hints (snd (push_error e s)) = hints s"
  "console (snd (push_error e s)) = console s"
  "calls (snd (push_error e s)) = calls s"
  "classList (snd (push_error e s)) = classList s"
  by (simp_all add: push_error_def split: option.splits)

lemmas form_steps = step_Skipped step_Passed step_Failed step_Threw

declare validateForm_rules.simps(2) [simp del]

lemma validateForm_rules_fst:
  "errors s = Some es \<Longrightarrow>
   fst (validateForm_rules d ei el ri rs s) = rules_result d (field el) rs"
proof (induction rs arbitrary: s ri)
  case Nil
  then show ?case by simp
next
  case (Cons r rs)
  then show ?case
    by (cases "outcome d (field el) r") (simp_all add: form_steps push_error_Some)
qed

lemma validateForm_rules_errors:
  "errors s = Some es \<Longrightarrow>
   errors (snd (validateForm_rules d ei el ri rs s)) = Some (es @ rules_errors d el rs)"
proof (induction rs arbitrary: s ri)
  case Nil
  then show ?case by simp
next
  case (Cons r rs)
  then show ?case
    by (cases "outcome d (field el) r") (simp_all add: form_steps push_error_Some)
qed

lemma validateForm_rules_calls:
  "calls (snd (validateForm_rules d ei el ri rs s)) =
   calls s @ rules_calls d (field el) (FormCondition ei) (FormMethod ei) ri rs"
proof (induction rs arbitrary: s ri)
  case Nil
  then show ?case by simp
next
  case (Cons r rs)
  then show ?case
    by (cases "outcome d (field el) r") (simp_all add: form_steps)
qed

lemma validateForm_rules_frame:
  "validators (snd (validateForm_rules d ei el ri rs s)) = validators s"
  "hints (snd (validateForm_rules d ei el ri rs s)) = hints s"
  "console (snd (validateForm_rules d ei el ri rs s)) = console s"
proof (induction rs arbitrary: s ri)
  case Nil
  {
    case 1 show ?case by simp
  next
    case 2 show ?case by simp
  next
    case 3 show ?case by simp
  }
next
  case (Cons r rs)
  {
    case 1 show ?case
      by (cases "outcome d (field el) r") (simp_all add: form_steps Cons.IH)
  next
    case 2 show ?case
      by (cases "outcome d (field el) r") (simp_all add: form_steps Cons.IH)
  next
    case 3 show ?case
      by (cases "outcome d (field el) r") (simp_all add: form_steps Cons.IH)
  }
qed


lemma validateForm_elements_step:
  "errors s = Some es \<Longrightarrow>
   validateForm_elements d ei (v # vs) s =
   (case rules_result d (field v) (rules v) of
      Inl e \<Rightarrow> (Inl e, snd (validateForm_rules d ei v 0 (rules v) s))
    | Inr u \<Rightarrow> validateForm_elements d (Suc ei) vs (snd (validateForm_rules d ei v 0 (rules v) s)))"
  using validateForm_rules_fst [of s es d ei v 0 "rules v"]
  by (cases "validateForm_rules d ei v 0 (rules v) s") (simp split: sum.splits)

declare validateForm_elements.simps(2) [simp del]

lemma validateForm_elements_fst:
  "errors s = Some es \<Longrightarrow> fst (validateForm_elements d ei vs s) = form_result d vs"
proof (induction vs arbitrary: s ei es)
  case Nil
  then show ?case by simp
next
  case (Cons v vs)
  then show ?case
    by (simp add: validateForm_elements_step validateForm_rules_errors split: sum.splits)
qed

lemma validateForm_elements_errors:
  "errors s = Some es \<Longrightarrow>
   errors (snd (validateForm_elements d ei vs s)) = Some (es @ form_errors d vs)"
proof (induction vs arbitrary: s ei es)
  case Nil
  then show ?case by simp
next
  case (Cons v vs)
  then show ?case
    by (simp add: validateForm_elements_step validateForm_rules_errors split: sum.splits)
qed

lemma validateForm_elements_calls:
  "errors s = Some es \<Longrightarrow>
   calls (snd (validateForm_elements d ei vs s)) = calls s @ form_calls d ei vs"
proof (induction vs arbitrary: s ei es)
  case Nil
  then show ?case by simp
next
  case (Cons v vs)
  then show ?case
    by (simp add: validateForm_elements_step validateForm_rules_errors validateForm_rules_calls
        split: sum.splits)
qed

lemma validateForm_elements_frame:
  "errors s = Some es \<Longrightarrow>
   validators (snd (validateForm_elements d ei vs s)) = validators s \<and>
   hints (snd (validateForm_elements d ei vs s)) = hints s \<and>
   console (snd (validateForm_elements d ei vs s)) = console s"
proof (induction vs arbitrary: s ei es)
  case Nil
  then show ?case by simp
next
  case (Cons v vs)
  then show ?case
    by (simp add: validateForm_elements_step validateForm_rules_errors validateForm_rules_frame
        split: sum.splits)
qed

lemma validateForm_fst:
  "fst (validateForm d s) =
   (case form_result d (validators s) of
      Inl e \<Rightarrow> Inl e
    | Inr u \<Rightarrow> Inr (form_errors d (validators s) = []))"
  using validateForm_elements_fst [of "s\<lparr>errors := Some []\<rparr>" "[]" d 0 "validators s"]
    validateForm_elements_errors [of "s\<lparr>errors := Some []\<rparr>" "[]" d 0 "validators s"]
  by (cases "validateForm_elements d 0 (validators s) (s\<lparr>errors := Some []\<rparr>)")
     (simp add: validateForm_def split: sum.splits)

lemma validateForm_snd:
  "snd (validateForm d s) = snd (validateForm_elements d 0 (validators s) (s\<lparr>errors := Some []\<rparr>))"
  using validateForm_elements_errors [of "s\<lparr>errors := Some []\<rparr>" "[]" d 0 "validators s"]
  by (cases "validateForm_elements d 0 (validators s) (s\<lparr>errors := Some []\<rparr>)")
     (simp add: validateForm_def split: sum.splits)

lemma validateForm_errors:
  "errors (snd (validateForm d s)) = Some (form_errors d (validators s))"
  by (simp add: validateForm_snd validateForm_elements_errors)

lemma validateForm_calls:
  "calls (snd (validateForm d s)) = calls s @ form_calls d 0 (validators s)"
  by (simp add: validateForm_snd validateForm_elements_calls)

lemma validateForm_frame:
  "validators (snd (validateForm d s)) = validators s"
  "hints (snd (validateForm d s)) = hints s"
  "console (snd (validateForm d s)) = console s"
  using validateForm_elements_frame [of "s\<lparr>errors := Some []\<rparr>" "[]" d 0 "validators s"]
  by (simp_all add: validateForm_snd)


section \<open>Properties of the outcome functions\<close>

lemma rules_result_append:
  "rules_result d fo (xs @ ys) =
   (if \<forall>p\<in>set xs. outcome d fo p = Skipped \<or> outcome d fo p = Passed
    then rules_result d fo ys else rules_result d fo xs)"
  by (induction xs) (auto split: outcome.splits)

lemma rules_errors_append:
  "rules_errors d v (xs @ ys) =
   (if \<forall>p\<in>set xs. outcome d (field v) p = Skipped \<or> outcome d (field v) p = Passed
    then rules_errors d v ys else rules_errors d v xs)"
  by (induction xs) (auto split: outcome.splits)

lemma rules_calls_append:
  "rules_calls d fo ct mt ri (xs @ ys) =
   rules_calls d fo ct mt ri xs @
   (if \<forall>p\<in>set xs. outcome d fo p = Skipped \<or> outcome d fo p = Passed
    then rules_calls d fo ct mt (ri + length xs) ys else [])"
  by (induction xs arbitrary: ri) (auto split: outcome.splits)

lemma rules_result_prefix_ok:
  "rules_result d fo (pre @ rest) = Inr () \<Longrightarrow> \<forall>p\<in>set pre. outcome d fo p \<noteq> Failed \<Longrightarrow>
   \<forall>p\<in>set pre. outcome d fo p = Skipped \<or> outcome d fo p = Passed"
  by (induction pre) (auto split: outcome.splits)

lemma rule_calls_subset: "set (rule_calls d a b r) \<subseteq> {a, b}"
  by (auto simp: rule_calls_def split: option.splits if_splits)

lemma rule_calls_method_called:
  "outcome d fo r = Failed \<or> outcome d fo r = Passed \<Longrightarrow> b \<in> set (rule_calls d a b r)"
  by (auto simp: rule_calls_def outcome_def split: option.splits if_splits sum.splits)

lemma rule_calls_Skipped:
  "outcome d fo r = Skipped \<Longrightarrow> rule_calls d a b r = [a]"
  by (auto simp: rule_calls_def outcome_def method_outcome_def split: option.splits if_splits sum.splits)

lemma rules_calls_index:
  "c \<in> set (rules_calls d fo ct mt ri rs) \<Longrightarrow>
   \<exists>j. ri \<le> j \<and> j < ri + length rs \<and> (c = ct j \<or> c = mt j)"
proof (induction rs arbitrary: ri)
  case Nil
  then show ?case by simp
next
  case (Cons r rs)
  from Cons.prems consider
    (here) "c \<in> set (rule_calls d (ct ri) (mt ri) r)"
    | (later) "c \<in> set (rules_calls d fo ct mt (Suc ri) rs)"
    by (auto split: outcome.splits)
  then show ?case
  proof cases
    case here
    then have "c = ct ri \<or> c = mt ri" using rule_calls_subset by fastforce
    then show ?thesis by (intro exI [of _ ri]) simp
  next
    case later
    from Cons.IH [OF later] obtain j where
      "Suc ri \<le> j" "j < Suc ri + length rs" "c = ct j \<or> c = mt j" by blast
    then show ?thesis by (intro exI [of _ j]) simp
  qed
qed

lemma form_result_append:
  "form_result d (xs @ ys) =
   (case form_result d xs of Inl e \<Rightarrow> Inl e | Inr u \<Rightarrow> form_result d ys)"
  by (induction xs) (auto split: sum.splits)

lemma form_errors_append:
  "form_errors d (xs @ ys) =
   form_errors d xs @ (case form_result d xs of Inl e \<Rightarrow> [] | Inr u \<Rightarrow> form_errors d ys)"
  by (induction xs) (auto split: sum.splits)

lemma form_calls_append:
  "form_calls d ei (xs @ ys) =
   form_calls d ei xs @
   (case form_result d xs of Inl e \<Rightarrow> [] | Inr u \<Rightarrow> form_calls d (ei + length xs) ys)"
  by (induction xs arbitrary: ei) (auto split: sum.splits)

lemma rules_errors_cases:
  "rules_errors d v rs = [] \<or> (\<exists>r\<in>set rs. rules_errors d v rs = [Error (fieldId v) (message r)])"
  by (induction rs) (auto split: outcome.splits)

lemma rules_errors_ids: "e \<in> set (rules_errors d v rs) \<Longrightarrow> error_fieldId e = fieldId v"
  using rules_errors_cases [of d v rs] by auto

lemma form_errors_ids: "e \<in> set (form_errors d vs) \<Longrightarrow> error_fieldId e \<in> fieldId ` set vs"
  by (induction vs) (auto split: sum.splits dest: rules_errors_ids)

lemma form_errors_subseq: "subseq (map error_fieldId (form_errors d vs)) (map fieldId vs)"
proof (induction vs)
  case Nil
  then show ?case by simp
next
  case (Cons v vs)
  have rest: "subseq (map error_fieldId (case rules_result d (field v) (rules v) of
      Inl e \<Rightarrow> [] | Inr u \<Rightarrow> form_errors d vs)) (map fieldId vs)"
    using Cons.IH by (simp split: sum.splits)
  from rules_errors_cases [of d v "rules v"] show ?case
  proof
    assume "rules_errors d v (rules v) = []"
    with rest show ?thesis by (simp add: list_emb_Cons)
  next
    assume "\<exists>r\<in>set (rules v). rules_errors d v (rules v) = [Error (fieldId v) (message r)]"
    with rest show ?thesis by auto
  qed
qed

lemma form_calls_index:
  "c \<in> set (form_calls d ei vs) \<Longrightarrow>
   \<exists>i j. ei \<le> i \<and> i < ei + length vs \<and> j < length (rules (vs ! (i - ei))) \<and>
         (c = FormCondition i j \<or> c = FormMethod i j)"
proof (induction vs arbitrary: ei)
  case Nil
  then show ?case by simp
next
  case (Cons v vs)
  from Cons.prems consider
    (here) "c \<in> set (rules_calls d (field v) (FormCondition ei) (FormMethod ei) 0 (rules v))"
    | (later) "c \<in> set (form_calls d (Suc ei) vs)"
    by (auto split: sum.splits)
  then show ?case
  proof cases
    case here
    from rules_calls_index [OF here] obtain j where
      "j < length (rules v)" "c = FormCondition ei j \<or> c = FormMethod ei j" by auto
    then show ?thesis by (intro exI [of _ ei] exI [of _ j]) simp
  next
    case later
    from Cons.IH [OF later] obtain i j where
      ij: "Suc ei \<le> i" "i < Suc ei + length vs" "j < length (rules (vs ! (i - Suc ei)))"
      "c = FormCondition i j \<or> c = FormMethod i j" by blast
    then have "(v # vs) ! (i - ei) = vs ! (i - Suc ei)"
      by (metis Suc_diff_le diff_Suc_Suc nth_Cons_Suc)
    with ij show ?thesis by (intro exI [of _ i] exI [of _ j]) simp
  qed
qed

lemma form_errors_complete:
  "form_result d vs = Inr () \<Longrightarrow>
   form_errors d vs = concat (map (\<lambda>v. rules_errors d v (rules v)) vs)"
  by (induction vs) (auto split: sum.splits)

section \<open>One validator within a pass\<close>

lemma rules_first_failure:
  assumes "\<forall>p\<in>set pre. outcome d (field v) p = Skipped \<or> outcome d (field v) p = Passed"
    and "outcome d (field v) r = Failed"
  shows "rules_result d (field v) (pre @ r # post) = Inr ()"
    and "rules_errors d v (pre @ r # post) = [Error (fieldId v) (message r)]"
    and "rules_calls d (field v) ct mt ri (pre @ r # post) =
         rules_calls d (field v) ct mt ri pre @
         rule_calls d (ct (ri + length pre)) (mt (ri + length pre)) r"
  using assms by (simp_all add: rules_result_append rules_errors_append rules_calls_append)

lemma form_result_parts:
  assumes "form_result d vs = Inr ()" and "i < length vs"
  shows "form_result d (take i vs) = Inr ()"
    and "rules_result d (field (vs ! i)) (rules (vs ! i)) = Inr ()"
    and "form_result d (drop (Suc i) vs) = Inr ()"
proof -
  have "form_result d (take i vs @ vs ! i # drop (Suc i) vs) = Inr ()"
    using assms by (simp add: id_take_nth_drop [symmetric])
  then show "form_result d (take i vs) = Inr ()"
    and "rules_result d (field (vs ! i)) (rules (vs ! i)) = Inr ()"
    and "form_result d (drop (Suc i) vs) = Inr ()"
    by (auto simp: form_result_append split: sum.splits)
qed

lemma form_errors_split:
  assumes "i < length vs"
  shows "form_errors d vs =
         form_errors d (take i vs) @
         (case form_result d (take i vs) of
            Inl e \<Rightarrow> []
          | Inr u \<Rightarrow>
              rules_errors d (vs ! i) (rules (vs ! i)) @
              (case rules_result d (field (vs ! i)) (rules (vs ! i)) of
                 Inl e \<Rightarrow> []
               | Inr u \<Rightarrow> form_errors d (drop (Suc i) vs)))"
proof -
  have "form_errors d vs = form_errors d (take i vs @ vs ! i # drop (Suc i) vs)"
    using assms by (simp add: id_take_nth_drop [symmetric])
  then show ?thesis
    using assms by (simp add: form_errors_append split: sum.splits)
qed

lemma form_calls_split:
  assumes "i < length vs"
  shows "form_calls d 0 vs =
         form_calls d 0 (take i vs) @
         (case form_result d (take i vs) of
            Inl e \<Rightarrow> []
          | Inr u \<Rightarrow>
              rules_calls d (field (vs ! i)) (FormCondition i) (FormMethod i) 0 (rules (vs ! i)) @
              (case rules_result d (field (vs ! i)) (rules (vs ! i)) of
                 Inl e \<Rightarrow> []
               | Inr u \<Rightarrow> form_calls d (Suc i) (drop (Suc i) vs)))"
proof -
  have "form_calls d 0 vs = form_calls d 0 (take i vs @ vs ! i # drop (Suc i) vs)"
    using assms by (simp add: id_take_nth_drop [symmetric])
  then show ?thesis
    using assms by (simp add: form_calls_append split: sum.splits)
qed

lemma form_calls_before: "FormMethod i j \<notin> set (form_calls d 0 (take i vs))"
  using form_calls_index [of "FormMethod i j" d 0 "take i vs"] by auto

lemma form_calls_after: "FormMethod i j \<notin> set (form_calls d (Suc i) ws)"
  using form_calls_index [of "FormMethod i j" d "Suc i" ws] by auto

lemma rules_calls_method_index:
  "FormMethod i j \<in> set (rules_calls d fo (FormCondition i) (FormMethod i) ri rs) \<Longrightarrow>
   ri \<le> j \<and> j < ri + length rs"
  using rules_calls_index [of "FormMethod i j" d fo "FormCondition i" "FormMethod i" ri rs] by auto

lemma short_circuit_core:
  assumes ok: "form_result d vs = Inr ()"
    and i: "i < length vs"
    and rs: "rules (vs ! i) = pre @ r # post"
    and pre: "\<forall>p\<in>set pre. outcome d (field (vs ! i)) p \<noteq> Failed"
    and r: "outcome d (field (vs ! i)) r = Failed"
  shows "form_errors d vs =
           form_errors d (take i vs) @ [Error (fieldId (vs ! i)) (message r)] @
           form_errors d (drop (Suc i) vs)"
    and "FormMethod i (length pre) \<in> set (form_calls d 0 vs)"
    and "\<forall>j>length pre. FormMethod i j \<notin> set (form_calls d 0 vs)"
proof -
  note parts = form_result_parts [OF ok i]
  from parts(2) rs pre
  have pre': "\<forall>p\<in>set pre. outcome d (field (vs ! i)) p = Skipped \<or> outcome d (field (vs ! i)) p = Passed"
    using rules_result_prefix_ok [of d "field (vs ! i)" pre "r # post"] by simp
  note ff = rules_first_failure [OF pre' r, where post = post]
  show "form_errors d vs =
           form_errors d (take i vs) @ [Error (fieldId (vs ! i)) (message r)] @
           form_errors d (drop (Suc i) vs)"
    by (simp add: form_errors_split [OF i] parts rs ff)
  have K: "form_calls d 0 vs =
      form_calls d 0 (take i vs) @
      (rules_calls d (field (vs ! i)) (FormCondition i) (FormMethod i) 0 pre @
       rule_calls d (FormCondition i (length pre)) (FormMethod i (length pre)) r) @
      form_calls d (Suc i) (drop (Suc i) vs)"
    by (simp add: form_calls_split [OF i] parts rs ff)
  have m: "FormMethod i (length pre) \<in>
      set (rule_calls d (FormCondition i (length pre)) (FormMethod i (length pre)) r)"
    using r rule_calls_method_called [of d "field (vs ! i)" r] by simp
  then show "FormMethod i (length pre) \<in> set (form_calls d 0 vs)"
    by (simp add: K)
  show "\<forall>j>length pre. FormMethod i j \<notin> set (form_calls d 0 vs)"
  proof (intro allI impI)
    fix j assume j: "length pre < j"
    have "FormMethod i j \<notin> set (rules_calls d (field (vs ! i)) (FormCondition i) (FormMethod i) 0 pre)"
      using rules_calls_method_index [of i j d "field (vs ! i)" 0 pre] j by auto
    moreover have "FormMethod i j \<notin>
        set (rule_calls d (FormCondition i (length pre)) (FormMethod i (length pre)) r)"
      using rule_calls_subset [of d "FormCondition i (length pre)" "FormMethod i (length pre)" r] j
      by auto
    ultimately show "FormMethod i j \<notin> set (form_calls d 0 vs)"
      by (simp add: K form_calls_before form_calls_after)
  qed
qed

lemma validateForm_completes:
  "validateForm d s = (Inr b, s') \<Longrightarrow>
   form_result d (validators s) = Inr () \<and> b = (form_errors d (validators s) = []) \<and>
   errors s' = Some (form_errors d (validators s)) \<and>
   calls s' = calls s @ form_calls d 0 (validators s)"
  using validateForm_fst [of d s] validateForm_errors [of d s] validateForm_calls [of d s]
  by (auto split: sum.splits)

section \<open>Looking a validator up\<close>

lemma find_validator_filter:
  "find_validator vs fid = (case filter (\<lambda>v. fieldId v = fid) vs of [] \<Rightarrow> None | v # rest \<Rightarrow> Some v)"
  by (induction vs) (auto simp: find_validator_def)

lemma find_validator_None: "(find_validator vs fid = None) = (fid \<notin> fieldId ` set vs)"
  by (auto simp: find_validator_def find_None_iff)

lemma find_validator_append:
  "find_validator (xs @ ys) fid =
   (case find_validator xs fid of Some v \<Rightarrow> Some v | None \<Rightarrow> find_validator ys fid)"
  by (induction xs) (auto simp: find_validator_def)

section \<open>The example page, evaluated\<close>

lemmas example_defs = example_state_def example_doc_def example_elements_def example_isNaN_def
  new_FormValidator_def addRegFormValidationRules_def addValidator_def
  name_rules_def email_rules_def activities_rules_def cc_num_rules_def zip_rules_def cvv_rules_def

lemmas callback_defs = outcome_def method_outcome_def on_string_def regex_test_def not_isNaN_def
  value_string_def field_value_def credit_card_selected_def indexOf_def lastIndexOf_def

lemma example_result: "form_result example_doc (validators example_state) = Inr ()"
  by (simp add: example_defs callback_defs)

lemma example_errors:
  "form_errors example_doc (validators example_state) =
     [Error ''name'' ''Name must be at least 3 characters long'',
      Error ''email'' ''The 'at' symbol must be before the 'dot' symbol.'']"
  by (simp add: example_defs callback_defs)

lemma example_calls:
  "form_calls example_doc 0 (validators example_state) =
     [FormMethod 0 0, FormMethod 0 1,
      FormMethod 1 0, FormMethod 1 1, FormMethod 1 2, FormMethod 1 3, FormMethod 1 4,
      FormMethod 2 0,
      FormCondition 3 0, FormCondition 3 1, FormCondition 3 2,
      FormCondition 4 0, FormCondition 4 1, FormCondition 4 2,
      FormCondition 5 0, FormCondition 5 1, FormCondition 5 2]"
  by (simp add: example_defs callback_defs rule_calls_def)

lemma example_fst: "fst (validateForm example_doc example_state) = Inr False"
  by (simp add: validateForm_fst example_result example_errors)

section \<open>Skipped rules, and the rules of the registration form\<close>

lemma rules_all_skipped:
  assumes "\<forall>r\<in>set rs. outcome d (field v) r = Skipped"
  shows "rules_result d (field v) rs = Inr ()"
    and "rules_errors d v rs = []"
    and "rules_calls d (field v) ct mt ri rs = map ct [ri..<ri + length rs]"
proof -
  show "rules_result d (field v) rs = Inr ()" and "rules_errors d v rs = []"
    using assms by (induction rs) simp_all
  show "rules_calls d (field v) ct mt ri rs = map ct [ri..<ri + length rs]"
    using assms
  proof (induction rs arbitrary: ri)
    case Nil
    then show ?case by simp
  next
    case (Cons r rs)
    then have r: "outcome d (field v) r = Skipped" by simp
    have "[ri..<ri + length (r # rs)] = ri # [Suc ri..<Suc ri + length rs]"
      by (simp add: upt_conv_Cons del: upt_Suc)
    with Cons r rule_calls_Skipped [OF r] show ?case by simp
  qed
qed

lemma all_skipped_core:
  assumes i: "i < length vs"
    and sk: "\<forall>r\<in>set (rules (vs ! i)). outcome d (field (vs ! i)) r = Skipped"
  shows "error_fieldId ` set (form_errors d vs) \<subseteq>
           fieldId ` (set (take i vs) \<union> set (drop (Suc i) vs))"
    and "FormMethod i j \<notin> set (form_calls d 0 vs)"
proof -
  note sk' = rules_all_skipped [OF sk]
  have "set (form_errors d vs) \<subseteq>
      set (form_errors d (take i vs)) \<union> set (form_errors d (drop (Suc i) vs))"
    by (auto simp: form_errors_split [OF i] sk' split: sum.splits)
  then show "error_fieldId ` set (form_errors d vs) \<subseteq>
           fieldId ` (set (take i vs) \<union> set (drop (Suc i) vs))"
    using form_errors_ids [of _ d "take i vs"] form_errors_ids [of _ d "drop (Suc i) vs"]
    by (auto simp: image_Un)
  show "FormMethod i j \<notin> set (form_calls d 0 vs)"
    by (auto simp: form_calls_split [OF i] sk' form_calls_before form_calls_after
        split: sum.splits)
qed

lemma regForm_validators:
  "validators (addRegFormValidationRules isNaN d (new_FormValidator cl hs)) =
     [\<lparr>fieldId = ''name'', rules = name_rules, field = form_elements d ''name''\<rparr>,
      \<lparr>fieldId = ''email'', rules = email_rules, field = form_elements d ''email''\<rparr>,
      \<lparr>fieldId = ''activities'', rules = activities_rules, field = form_elements d ''activities''\<rparr>,
      \<lparr>fieldId = ''cc-num'', rules = cc_num_rules isNaN, field = form_elements d ''cc-num''\<rparr>,
      \<lparr>fieldId = ''zip'', rules = zip_rules isNaN, field = form_elements d ''zip''\<rparr>,
      \<lparr>fieldId = ''cvv'', rules = cvv_rules isNaN, field = form_elements d ''cvv''\<rparr>]"
  by (simp add: addRegFormValidationRules_def addValidator_def new_FormValidator_def)

lemma regForm_calls: "calls (addRegFormValidationRules isNaN d (new_FormValidator cl hs)) = []"
  by (simp add: addRegFormValidationRules_def addValidator_def new_FormValidator_def)

lemma cc_num_skipped:
  assumes "getElementById d ''payment'' = Some p" and "node_value d p \<noteq> Some ''credit-card''"
  shows "\<forall>r\<in>set (cc_num_rules isNaN). outcome d fo r = Skipped"
  using assms by (simp add: cc_num_rules_def outcome_def credit_card_selected_def)

lemma filter_form_errors_other:
  assumes "f \<notin> fieldId ` set ws"
  shows "filter (\<lambda>e. error_fieldId e = f) (form_errors d ws) = []"
proof -
  have "error_fieldId e \<noteq> f" if e: "e \<in> set (form_errors d ws)" for e
    using form_errors_ids [OF e] assms by auto
  then show ?thesis by (simp add: filter_empty_conv)
qed

lemma email_outcomes:
  assumes "node_value d n = Some ''a.b@@c.com''"
  shows "\<forall>p\<in>set (take 4 email_rules). outcome d (Some n) p \<noteq> Failed"
    and "outcome d (Some n) (email_rules ! 4) = Failed"
  using assms by (simp_all add: email_rules_def callback_defs)

section \<open>The loop of validateField\<close>

lemma removeHint_frame [simp]:
  "validators (snd (removeHint d f s)) = validators s"
  "errors (snd (removeHint d f s)) = errors s"
  "classList (snd (removeHint d f s)) = classList s"
  "console (snd (removeHint d f s)) = console s"
  "calls (snd (removeHint d f s)) = calls s"
  by (simp_all add: removeHint_def split: sum.splits)

lemma removeHint_throws:
  "querySelectorAll d (hint_selector f) = Inl e \<Longrightarrow> removeHint d f s = (Inl e, s)"
  by (simp add: removeHint_def)

lemma removeHint_returns:
  "querySelectorAll d (hint_selector f) = Inr m \<Longrightarrow>
   removeHint d f s = (Inr (), s\<lparr>hints := filter (\<lambda>h. \<not> m (classList s) (hints s) h) (hints s)\<rparr>)"
  by (simp add: removeHint_def)

lemma showHint_frame [simp]:
  "validators (snd (showHint d f r s)) = validators s"
  "errors (snd (showHint d f r s)) = errors s"
  "console (snd (showHint d f r s)) = console s"
  "calls (snd (showHint d f r s)) = calls s"
  by (simp_all add: showHint_def update_classes_def Let_def split: option.splits)

lemma field_step_Skipped:
  "outcome d (field v) r = Skipped \<Longrightarrow>
   validateField_rules d f v ri (r # rs) s =
   validateField_rules d f v (Suc ri) rs
     (s\<lparr>calls := calls s @ rule_calls d (FieldCondition f ri) (FieldMethod f ri) r\<rparr>)"
  by (auto simp: outcome_def method_outcome_def rule_calls_def condition_not_met_def call_method_def
      split: option.splits sum.splits if_splits)

lemma field_step_Passed:
  "outcome d (field v) r = Passed \<Longrightarrow> querySelectorAll d (hint_selector f) = Inr m \<Longrightarrow>
   validateField_rules d f v ri (r # rs) s =
   validateField_rules d f v (Suc ri) rs
     (snd (removeHint d f (snd (showValid d (field v)
        (s\<lparr>calls := calls s @ rule_calls d (FieldCondition f ri) (FieldMethod f ri) r\<rparr>)))))"
  by (auto simp: outcome_def method_outcome_def rule_calls_def condition_not_met_def call_method_def
      showValid_def removeHint_def Let_def split: option.splits sum.splits if_splits)

lemma field_step_Passed_throws:
  "outcome d (field v) r = Passed \<Longrightarrow> querySelectorAll d (hint_selector f) = Inl e \<Longrightarrow>
   validateField_rules d f v ri (r # rs) s =
   (Inl e, snd (showValid d (field v)
        (s\<lparr>calls := calls s @ rule_calls d (FieldCondition f ri) (FieldMethod f ri) r\<rparr>)))"
  by (auto simp: outcome_def method_outcome_def rule_calls_def condition_not_met_def call_method_def
      showValid_def removeHint_def Let_def split: option.splits sum.splits if_splits)

lemma field_step_Failed:
  "outcome d (field v) r = Failed \<Longrightarrow> querySelectorAll d (hint_selector f) = Inr m \<Longrightarrow>
   validateField_rules d f v ri (r # rs) s =
   showHint d f r (snd (removeHint d f
     (s\<lparr>calls := calls s @ rule_calls d (FieldCondition f ri) (FieldMethod f ri) r\<rparr>)))"
  by (auto simp: outcome_def method_outcome_def rule_calls_def condition_not_met_def call_method_def
      removeHint_def split: option.splits sum.splits if_splits)

lemma field_step_Failed_throws:
  "outcome d (field v) r = Failed \<Longrightarrow> querySelectorAll d (hint_selector f) = Inl e \<Longrightarrow>
   validateField_rules d f v ri (r # rs) s =
   (Inl e, s\<lparr>calls := calls s @ rule_calls d (FieldCondition f ri) (FieldMethod f ri) r\<rparr>)"
  by (auto simp: outcome_def method_outcome_def rule_calls_def condition_not_met_def call_method_def
      removeHint_def split: option.splits sum.splits if_splits)

lemma field_step_Threw:
  "outcome d (field v) r = Threw e \<Longrightarrow>
   validateField_rules d f v ri (r # rs) s =
   (Inl e, s\<lparr>calls := calls s @ rule_calls d (FieldCondition f ri) (FieldMethod f ri) r\<rparr>)"
  by (auto simp: outcome_def method_outcome_def rule_calls_def condition_not_met_def call_method_def
      showValid_def split: option.splits sum.splits if_splits)

lemmas field_steps = field_step_Skipped field_step_Passed field_step_Passed_throws
  field_step_Failed field_step_Failed_throws field_step_Threw

declare validateField_rules.simps(2) [simp del]

lemma validateField_rules_calls:
  "calls (snd (validateField_rules d f v ri rs s)) = calls s @ field_calls d f (field v) ri rs"
proof (induction rs arbitrary: s ri)
  case Nil
  then show ?case by simp
next
  case (Cons r rs)
  then show ?case
    by (cases "outcome d (field v) r"; cases "querySelectorAll d (hint_selector f)")
      (simp_all add: field_steps)
qed

lemma validateField_rules_frame:
  "validators (snd (validateField_rules d f v ri rs s)) = validators s \<and>
   errors (snd (validateField_rules d f v ri rs s)) = errors s \<and>
   console (snd (validateField_rules d f v ri rs s)) = console s"
proof (induction rs arbitrary: s ri)
  case Nil
  then show ?case by simp
next
  case (Cons r rs)
  then show ?case
    by (cases "outcome d (field v) r"; cases "querySelectorAll d (hint_selector f)")
      (simp_all add: field_steps)
qed

lemma showValid_cong:
  "classList s = classList t \<Longrightarrow>
   fst (showValid d fo s) = fst (showValid d fo t) \<and>
   classList (snd (showValid d fo s)) = classList (snd (showValid d fo t))"
  by (simp add: showValid_def update_classes_def Let_def split: option.splits)

lemma showValid_hints: "hints (snd (showValid d fo s)) = hints s"
  by (simp add: showValid_def update_classes_def Let_def split: option.splits)

lemma showHint_cong:
  "classList s = classList t \<Longrightarrow> hints s = hints t \<Longrightarrow>
   fst (showHint d f r s) = fst (showHint d f r t) \<and>
   classList (snd (showHint d f r s)) = classList (snd (showHint d f r t)) \<and>
   hints (snd (showHint d f r s)) = hints (snd (showHint d f r t))"
  by (simp add: showHint_def update_classes_def Let_def split: option.splits)

lemma removeHint_cong:
  "classList s = classList t \<Longrightarrow> hints s = hints t \<Longrightarrow>
   fst (removeHint d f s) = fst (removeHint d f t) \<and>
   classList (snd (removeHint d f s)) = classList (snd (removeHint d f t)) \<and>
   hints (snd (removeHint d f s)) = hints (snd (removeHint d f t))"
  by (simp add: removeHint_def split: sum.splits)

lemma validateField_rules_cong:
  assumes "classList s = classList t" and "hints s = hints t"
  shows "fst (validateField_rules d f v ri rs s) = fst (validateField_rules d f v ri rs t) \<and>
         classList (snd (validateField_rules d f v ri rs s)) =
           classList (snd (validateField_rules d f v ri rs t)) \<and>
         hints (snd (validateField_rules d f v ri rs s)) =
           hints (snd (validateField_rules d f v ri rs t))"
  using assms
proof (induction rs arbitrary: s t ri)
  case Nil
  then show ?case by simp
next
  case (Cons r rs)
  let ?K = "rule_calls d (FieldCondition f ri) (FieldMethod f ri) r"
  let ?s0 = "s\<lparr>calls := calls s @ ?K\<rparr>"
  let ?t0 = "t\<lparr>calls := calls t @ ?K\<rparr>"
  have c0: "classList ?s0 = classList ?t0" and h0: "hints ?s0 = hints ?t0"
    using Cons.prems by simp_all
  show ?case
  proof (cases "outcome d (field v) r")
    case Skipped
    from Cons.IH [OF c0 h0, of "Suc ri"] Skipped show ?thesis
      by (simp add: field_steps)
  next
    case Passed
    let ?s1 = "snd (showValid d (field v) ?s0)"
    let ?t1 = "snd (showValid d (field v) ?t0)"
    have c1: "classList ?s1 = classList ?t1"
      using showValid_cong [OF c0] by simp
    have h1: "hints ?s1 = hints ?t1"
      using h0 by (simp only: showValid_hints)
    show ?thesis
    proof (cases "querySelectorAll d (hint_selector f)")
      case (Inl e)
      with Passed c1 h1 show ?thesis by (simp add: field_steps)
    next
      case (Inr m)
      from removeHint_cong [OF c1 h1, of d f]
      have c: "classList (snd (removeHint d f ?s1)) = classList (snd (removeHint d f ?t1))"
        and h: "hints (snd (removeHint d f ?s1)) = hints (snd (removeHint d f ?t1))"
        by simp_all
      from Cons.IH [OF c h, of "Suc ri"] Passed Inr show ?thesis
        by (simp add: field_steps)
    qed
  next
    case Failed
    show ?thesis
    proof (cases "querySelectorAll d (hint_selector f)")
      case (Inl e)
      with Failed c0 h0 show ?thesis by (simp add: field_steps)
    next
      case (Inr m)
      from removeHint_cong [OF c0 h0, of d f]
      have "classList (snd (removeHint d f ?s0)) = classList (snd (removeHint d f ?t0))"
        and "hints (snd (removeHint d f ?s0)) = hints (snd (removeHint d f ?t0))"
        by simp_all
      from showHint_cong [OF this, of d f r] Failed Inr show ?thesis
        by (simp add: field_steps)
    qed
  next
    case (Threw e)
    with Cons.prems show ?thesis by (simp add: field_steps)
  qed
qed

lemma validateField_first_match:
  assumes "fieldId v = f" and "f \<notin> fieldId ` set xs"
  shows "find_validator (xs @ v # ys) f = Some v"
proof -
  have "find_validator xs f = None"
    using assms(2) by (simp add: find_validator_None)
  moreover have "find_validator (v # ys) f = Some v"
    using assms(1) by (simp add: find_validator_def)
  ultimately show ?thesis by (simp add: find_validator_append)
qed

lemma rules_first_failures_two:
  assumes ok: "form_result d (xs @ v # ys @ w # zs) = Inr ()"
    and v: "rules v = pre1 @ r1 # post1" "\<forall>p\<in>set pre1. outcome d (field v) p \<noteq> Failed"
      "outcome d (field v) r1 = Failed"
    and w: "rules w = pre2 @ r2 # post2" "\<forall>p\<in>set pre2. outcome d (field w) p \<noteq> Failed"
      "outcome d (field w) r2 = Failed"
  shows "form_errors d (xs @ v # ys @ w # zs) =
         form_errors d xs @ [Error (fieldId v) (message r1)] @ form_errors d ys @
         [Error (fieldId w) (message r2)] @ form_errors d zs"
proof -
  from ok have parts: "form_result d xs = Inr ()" "rules_result d (field v) (rules v) = Inr ()"
    "form_result d ys = Inr ()" "rules_result d (field w) (rules w) = Inr ()"
    by (auto simp: form_result_append split: sum.splits)
  have v': "rules_errors d v (rules v) = [Error (fieldId v) (message r1)]"
    using rules_result_prefix_ok [of d "field v" pre1 "r1 # post1"] parts(2) v
    by (simp add: rules_first_failure(2))
  have w': "rules_errors d w (rules w) = [Error (fieldId w) (message r2)]"
    using rules_result_prefix_ok [of d "field w" pre2 "r2 # post2"] parts(4) w
    by (simp add: rules_first_failure(2))
  show ?thesis
    by (simp add: form_errors_append parts v' w')
qed

section \<open>The duplicate registration, evaluated\<close>

lemma duplicates_validators:
  "validators example_duplicates =
     [\<lparr>fieldId = ''name'', rules = name_rules, field = Some 0\<rparr>,
      \<lparr>fieldId = ''name'', rules = email_rules, field = Some 0\<rparr>]"
  by (simp add: example_duplicates_def addValidator_def new_FormValidator_def example_doc_def
      example_elements_def)

lemma duplicates_outcomes:
  "outcome example_doc (Some 0) (name_rules ! 0) = Passed"
  "outcome example_doc (Some 0) (name_rules ! 1) = Failed"
  "outcome example_doc (Some 0) (email_rules ! 0) = Passed"
  "outcome example_doc (Some 0) (email_rules ! 1) = Failed"
  by (simp_all add: name_rules_def email_rules_def example_doc_def callback_defs)

lemma duplicates_fst: "fst (validateForm example_doc example_duplicates) = Inr False"
  using duplicates_outcomes
  by (simp add: validateForm_fst duplicates_validators name_rules_def email_rules_def)

text \<open>
  \<^verbatim>\<open>removeHint\<close> on the example page: the hint of \<open>name\<close> is removed; the hint of
  \<open>a.b\<close>, of class \<open>a.b-hint\<close>, is not selected by \<^verbatim>\<open>.a.b-hint\<close> and stays; for
  \<open>1st\<close> the call throws.
\<close>

lemma removeHint_examples:
  "removeHint example_doc ''name'' (example_hinted ''name'') =
     (Inr (), (example_hinted ''name'')\<lparr>hints := []\<rparr>)"
  "removeHint example_doc ''a.b'' (example_hinted ''a.b'') = (Inr (), example_hinted ''a.b'')"
  "removeHint example_doc ''1st'' (example_hinted ''1st'') = (Inl SyntaxError, example_hinted ''1st'')"
  by (simp_all add: removeHint_def example_doc_def hint_selector_def example_querySelectorAll_def
      example_hinted_def example_hint_def new_FormValidator_def
      name_start_def name_char_def letter_def digit_def in_range_def)

lemma name_selector:
  "\<exists>m. querySelectorAll example_doc (hint_selector ''name'') = Inr m"
  by (simp add: example_doc_def hint_selector_def example_querySelectorAll_def
      name_start_def name_char_def letter_def digit_def in_range_def)

lemma first_selector:
  "querySelectorAll example_1st_page (hint_selector ''1st'') = Inl SyntaxError"
  by (simp add: example_1st_page_def example_doc_def hint_selector_def example_querySelectorAll_def
      name_start_def name_char_def letter_def digit_def in_range_def)

lemma first_validators:
  "validators example_1st =
     [\<lparr>fieldId = ''1st'', rules = name_rules, field = Some 0\<rparr>,
      \<lparr>fieldId = ''1st'', rules = email_rules, field = Some 0\<rparr>]"
  by (simp add: example_1st_def example_1st_page_def addValidator_def new_FormValidator_def)

lemma first_outcome:
  "outcome example_1st_page (Some 0) (name_rules ! 0) = Passed"
  by (simp add: name_rules_def example_1st_page_def example_doc_def callback_defs)

lemma duplicates_field_fst:
  "fst (validateField example_doc ''name'' example_duplicates) = Inr ()"
proof -
  obtain m where m: "querySelectorAll example_doc (hint_selector ''name'') = Inr m"
    using name_selector by blast
  have f: "find_validator (validators example_duplicates) ''name'' =
      Some \<lparr>fieldId = ''name'', rules = name_rules, field = Some 0\<rparr>"
    by (simp add: duplicates_validators find_validator_def)
  have g: "getElementById example_doc ''name'' = Some 0"
    by (simp add: example_doc_def example_elements_def)
  have rs: "name_rules = name_rules ! 0 # name_rules ! 1 # [name_rules ! 2]"
    by (simp add: name_rules_def)
  have "fst (validateField_rules example_doc ''name''
      \<lparr>fieldId = ''name'', rules = name_rules, field = Some 0\<rparr> 0
      (name_rules ! 0 # name_rules ! 1 # [name_rules ! 2]) example_duplicates) = Inr ()"
    using duplicates_outcomes(1,2)
    by (simp add: field_step_Passed [OF _ m] field_step_Failed [OF _ m] showHint_def g Let_def)
  with f rs show ?thesis by (simp add: validateField_def)
qed

lemma first_field_fst:
  "fst (validateField example_1st_page ''1st'' example_1st) = Inl SyntaxError"
proof -
  have f: "find_validator (validators example_1st) ''1st'' =
      Some \<lparr>fieldId = ''1st'', rules = name_rules, field = Some 0\<rparr>"
    by (simp add: first_validators find_validator_def)
  have rs: "name_rules = name_rules ! 0 # [name_rules ! 1, name_rules ! 2]"
    by (simp add: name_rules_def)
  have "fst (validateField_rules example_1st_page ''1st''
      \<lparr>fieldId = ''1st'', rules = name_rules, field = Some 0\<rparr> 0
      (name_rules ! 0 # [name_rules ! 1, name_rules ! 2]) example_1st) = Inl SyntaxError"
    using first_outcome
    by (simp add: field_step_Passed_throws [OF _ first_selector])
  with f rs show ?thesis by (simp add: validateField_def)
qed

section \<open>A method is called only after its condition returned true\<close>

lemma rule_calls_method_gated:
  assumes "mt \<in> set (rule_calls d ct mt r)" and "ct \<noteq> mt"
  shows "case condition r of
           None \<Rightarrow> rule_calls d ct mt r = [mt]
         | Some c \<Rightarrow> c d = Inr True \<and> rule_calls d ct mt r = [ct, mt]"
  using assms by (auto simp: rule_calls_def split: option.splits if_splits)

lemma rules_calls_method_gated:
  assumes inj: "\<And>a b. mt a = mt b \<Longrightarrow> a = b" and diff: "\<And>a b. ct a \<noteq> mt b"
  shows "mt j \<in> set (rules_calls d fo ct mt ri rs) \<Longrightarrow>
         ri \<le> j \<and> j < ri + length rs \<and>
         (case condition (rs ! (j - ri)) of
            None \<Rightarrow> True
          | Some c \<Rightarrow> c d = Inr True \<and>
              (\<exists>K1 K2. rules_calls d fo ct mt ri rs = K1 @ [ct j, mt j] @ K2))"
proof (induction rs arbitrary: ri)
  case Nil
  then show ?case by simp
next
  case (Cons r rs)
  let ?R = "rule_calls d (ct ri) (mt ri) r"
  let ?rest = "case outcome d fo r of
        Skipped \<Rightarrow> rules_calls d fo ct mt (Suc ri) rs
      | Passed \<Rightarrow> rules_calls d fo ct mt (Suc ri) rs
      | Failed \<Rightarrow> []
      | Threw e \<Rightarrow> []"
  have all: "rules_calls d fo ct mt ri (r # rs) = ?R @ ?rest" by simp
  from Cons.prems consider (here) "mt j \<in> set ?R" | (later) "mt j \<in> set ?rest"
    by (auto simp: all)
  then show ?case
  proof cases
    case here
    with rule_calls_subset [of d "ct ri" "mt ri" r] diff [of ri j] have "mt j = mt ri" by auto
    then have j: "j = ri" by (rule inj)
    from here j rule_calls_method_gated [of "mt ri" d "ct ri" r] diff [of ri ri]
    have "case condition r of
           None \<Rightarrow> ?R = [mt ri]
         | Some c \<Rightarrow> c d = Inr True \<and> ?R = [ct ri, mt ri]"
      by simp
    then have "case condition r of
           None \<Rightarrow> True
         | Some c \<Rightarrow> c d = Inr True \<and>
             (\<exists>K1 K2. rules_calls d fo ct mt ri (r # rs) = K1 @ [ct ri, mt ri] @ K2)"
      unfolding all by (cases "condition r") (auto intro: exI [of _ "[]"])
    with j show ?thesis by (simp split: option.splits)
  next
    case later
    then have m: "mt j \<in> set (rules_calls d fo ct mt (Suc ri) rs)"
      and rest: "?rest = rules_calls d fo ct mt (Suc ri) rs"
      by (auto split: outcome.splits)
    from Cons.IH [OF m] have j: "Suc ri \<le> j" "j < Suc ri + length rs"
      and c: "case condition (rs ! (j - Suc ri)) of
            None \<Rightarrow> True
          | Some c \<Rightarrow> c d = Inr True \<and>
              (\<exists>K1 K2. rules_calls d fo ct mt (Suc ri) rs = K1 @ [ct j, mt j] @ K2)"
      by simp_all
    from j have nth: "(r # rs) ! (j - ri) = rs ! (j - Suc ri)"
      by (metis Suc_diff_le diff_Suc_Suc nth_Cons_Suc)
    have "case condition (rs ! (j - Suc ri)) of
            None \<Rightarrow> True
          | Some c \<Rightarrow> c d = Inr True \<and>
              (\<exists>K1 K2. rules_calls d fo ct mt ri (r # rs) = K1 @ [ct j, mt j] @ K2)"
    proof (cases "condition (rs ! (j - Suc ri))")
      case None
      then show ?thesis by simp
    next
      case (Some c')
      with c obtain K1 K2 where t: "c' d = Inr True"
        and K: "rules_calls d fo ct mt (Suc ri) rs = K1 @ [ct j, mt j] @ K2" by auto
      have "rules_calls d fo ct mt ri (r # rs) = ?R @ rules_calls d fo ct mt (Suc ri) rs"
        using all rest by (simp only:)
      then have "rules_calls d fo ct mt ri (r # rs) = (?R @ K1) @ [ct j, mt j] @ K2"
        by (simp only: K append_assoc)
      then have "\<exists>K1 K2. rules_calls d fo ct mt ri (r # rs) = K1 @ [ct j, mt j] @ K2"
        by (intro exI)
      with t Some show ?thesis by (simp del: rules_calls.simps)
    qed
    with j nth show ?thesis by (simp split: option.splits)
  qed
qed


lemma field_calls_method_gated:
  "FieldMethod f j \<in> set (field_calls d f fo ri rs) \<Longrightarrow>
   ri \<le> j \<and> j < ri + length rs \<and>
   (case condition (rs ! (j - ri)) of
      None \<Rightarrow> True
    | Some c \<Rightarrow> c d = Inr True \<and>
        (\<exists>K1 K2. field_calls d f fo ri rs = K1 @ [FieldCondition f j, FieldMethod f j] @ K2))"
proof (induction rs arbitrary: ri)
  case Nil
  then show ?case by simp
next
  case (Cons r rs)
  let ?R = "rule_calls d (FieldCondition f ri) (FieldMethod f ri) r"
  let ?rest = "case outcome d fo r of
        Skipped \<Rightarrow> field_calls d f fo (Suc ri) rs
      | Passed \<Rightarrow>
          (case querySelectorAll d (hint_selector f) of
             Inl e \<Rightarrow> []
           | Inr selected \<Rightarrow> field_calls d f fo (Suc ri) rs)
      | Failed \<Rightarrow> []
      | Threw e \<Rightarrow> []"
  have all: "field_calls d f fo ri (r # rs) = ?R @ ?rest" by simp
  from Cons.prems consider (here) "FieldMethod f j \<in> set ?R" | (later) "FieldMethod f j \<in> set ?rest"
    by (auto simp: all)
  then show ?case
  proof cases
    case here
    with rule_calls_subset [of d "FieldCondition f ri" "FieldMethod f ri" r]
    have j: "j = ri" by auto
    from here j rule_calls_method_gated [of "FieldMethod f ri" d "FieldCondition f ri" r]
    have "case condition r of
           None \<Rightarrow> ?R = [FieldMethod f ri]
         | Some c \<Rightarrow> c d = Inr True \<and> ?R = [FieldCondition f ri, FieldMethod f ri]"
      by simp
    then have "case condition r of
           None \<Rightarrow> True
         | Some c \<Rightarrow> c d = Inr True \<and>
             (\<exists>K1 K2. field_calls d f fo ri (r # rs) =
                K1 @ [FieldCondition f ri, FieldMethod f ri] @ K2)"
      unfolding all by (cases "condition r") (auto intro: exI [of _ "[]"])
    with j show ?thesis by (simp split: option.splits)
  next
    case later
    then have m: "FieldMethod f j \<in> set (field_calls d f fo (Suc ri) rs)"
      and rest: "?rest = field_calls d f fo (Suc ri) rs"
      by (auto split: outcome.splits sum.splits)
    from Cons.IH [OF m] have j: "Suc ri \<le> j" "j < Suc ri + length rs"
      and c: "case condition (rs ! (j - Suc ri)) of
            None \<Rightarrow> True
          | Some c \<Rightarrow> c d = Inr True \<and>
              (\<exists>K1 K2. field_calls d f fo (Suc ri) rs =
                 K1 @ [FieldCondition f j, FieldMethod f j] @ K2)"
      by simp_all
    from j have nth: "(r # rs) ! (j - ri) = rs ! (j - Suc ri)"
      by (metis Suc_diff_le diff_Suc_Suc nth_Cons_Suc)
    have "case condition (rs ! (j - Suc ri)) of
            None \<Rightarrow> True
          | Some c \<Rightarrow> c d = Inr True \<and>
              (\<exists>K1 K2. field_calls d f fo ri (r # rs) =
                 K1 @ [FieldCondition f j, FieldMethod f j] @ K2)"
    proof (cases "condition (rs ! (j - Suc ri))")
      case None
      then show ?thesis by simp
    next
      case (Some c')
      with c obtain K1 K2 where t: "c' d = Inr True"
        and K: "field_calls d f fo (Suc ri) rs = K1 @ [FieldCondition f j, FieldMethod f j] @ K2"
        by auto
      have "field_calls d f fo ri (r # rs) = ?R @ field_calls d f fo (Suc ri) rs"
        using all rest by (simp only:)
      then have "field_calls d f fo ri (r # rs) =
          (?R @ K1) @ [FieldCondition f j, FieldMethod f j] @ K2"
        by (simp only: K append_assoc)
      then have "\<exists>K1 K2. field_calls d f fo ri (r # rs) =
          K1 @ [FieldCondition f j, FieldMethod f j] @ K2"
        by (intro exI)
      with t Some show ?thesis by (simp del: field_calls.simps)
    qed
    with j nth show ?thesis by (simp split: option.splits)
  qed
qed

lemma form_calls_method_gated:
  "FormMethod i j \<in> set (form_calls d ei vs) \<Longrightarrow>
   ei \<le> i \<and> i < ei + length vs \<and> j < length (rules (vs ! (i - ei))) \<and>
   (case condition (rules (vs ! (i - ei)) ! j) of
      None \<Rightarrow> True
    | Some c \<Rightarrow> c d = Inr True \<and>
        (\<exists>K1 K2. form_calls d ei vs = K1 @ [FormCondition i j, FormMethod i j] @ K2))"
proof (induction vs arbitrary: ei)
  case Nil
  then show ?case by simp
next
  case (Cons v vs)
  let ?R = "rules_calls d (field v) (FormCondition ei) (FormMethod ei) 0 (rules v)"
  let ?rest = "case rules_result d (field v) (rules v) of
        Inl e \<Rightarrow> [] | Inr u \<Rightarrow> form_calls d (Suc ei) vs"
  have all: "form_calls d ei (v # vs) = ?R @ ?rest" by simp
  from Cons.prems consider (here) "FormMethod i j \<in> set ?R" | (later) "FormMethod i j \<in> set ?rest"
    by (auto simp: all)
  then show ?case
  proof cases
    case here
    from rules_calls_index [OF here] have i: "i = ei" by auto
    from here have "FormMethod ei j \<in> set ?R" by (simp add: i)
    from rules_calls_method_gated [of "FormMethod ei" "FormCondition ei", OF _ _ this]
    have j: "j < length (rules v)"
      and c: "case condition (rules v ! j) of
            None \<Rightarrow> True
          | Some c \<Rightarrow> c d = Inr True \<and>
              (\<exists>K1 K2. ?R = K1 @ [FormCondition ei j, FormMethod ei j] @ K2)"
      by simp_all
    have "case condition (rules v ! j) of
            None \<Rightarrow> True
          | Some c \<Rightarrow> c d = Inr True \<and>
              (\<exists>K1 K2. form_calls d ei (v # vs) =
                 K1 @ [FormCondition ei j, FormMethod ei j] @ K2)"
    proof (cases "condition (rules v ! j)")
      case None
      then show ?thesis by simp
    next
      case (Some c')
      with c obtain K1 K2 where t: "c' d = Inr True"
        and K: "?R = K1 @ [FormCondition ei j, FormMethod ei j] @ K2" by auto
      have "form_calls d ei (v # vs) = K1 @ [FormCondition ei j, FormMethod ei j] @ (K2 @ ?rest)"
        by (simp only: all K append_assoc)
      then have "\<exists>K1 K2. form_calls d ei (v # vs) =
          K1 @ [FormCondition ei j, FormMethod ei j] @ K2"
        by (intro exI)
      with t Some show ?thesis by (simp del: form_calls.simps)
    qed
    with i j show ?thesis by (simp split: option.splits del: form_calls.simps)
  next
    case later
    then have m: "FormMethod i j \<in> set (form_calls d (Suc ei) vs)"
      and rest: "?rest = form_calls d (Suc ei) vs"
      by (auto split: sum.splits)
    from Cons.IH [OF m] have i: "Suc ei \<le> i" "i < Suc ei + length vs"
      and j: "j < length (rules (vs ! (i - Suc ei)))"
      and c: "case condition (rules (vs ! (i - Suc ei)) ! j) of
            None \<Rightarrow> True
          | Some c \<Rightarrow> c d = Inr True \<and>
              (\<exists>K1 K2. form_calls d (Suc ei) vs = K1 @ [FormCondition i j, FormMethod i j] @ K2)"
      by simp_all
    from i have nth: "(v # vs) ! (i - ei) = vs ! (i - Suc ei)"
      by (metis Suc_diff_le diff_Suc_Suc nth_Cons_Suc)
    have "case condition (rules (vs ! (i - Suc ei)) ! j) of
            None \<Rightarrow> True
          | Some c \<Rightarrow> c d = Inr True \<and>
              (\<exists>K1 K2. form_calls d ei (v # vs) = K1 @ [FormCondition i j, FormMethod i j] @ K2)"
    proof (cases "condition (rules (vs ! (i - Suc ei)) ! j)")
      case None
      then show ?thesis by simp
    next
      case (Some c')
      with c obtain K1 K2 where t: "c' d = Inr True"
        and K: "form_calls d (Suc ei) vs = K1 @ [FormCondition i j, FormMethod i j] @ K2" by auto
      have "form_calls d ei (v # vs) = ?R @ form_calls d (Suc ei) vs"
        using all rest by (simp only:)
      then have "form_calls d ei (v # vs) = (?R @ K1) @ [FormCondition i j, FormMethod i j] @ K2"
        by (simp only: K append_assoc)
      then have "\<exists>K1 K2. form_calls d ei (v # vs) = K1 @ [FormCondition i j, FormMethod i j] @ K2"
        by (intro exI)
      with t Some show ?thesis by (simp del: form_calls.simps)
    qed
    with i j nth show ?thesis by (simp split: option.splits del: form_calls.simps)
  qed
qed

lemma rule_error_of_calls:
  assumes "VS ! ei = v" and "rules v ! n = r"
  shows "concat (map (error_of_call d VS) (rule_calls d (FormCondition ei n) (FormMethod ei n) r)) =
         (case outcome d (field v) r of
            Failed \<Rightarrow> [Error (fieldId v) (message r)]
          | Skipped \<Rightarrow> [] | Passed \<Rightarrow> [] | Threw e \<Rightarrow> [])"
  using assms
  by (auto simp: rule_calls_def outcome_def method_outcome_def
      split: option.splits sum.splits if_splits)

lemma rules_errors_of_calls:
  assumes "VS ! ei = v"
  shows "rules v = pre @ rs \<Longrightarrow>
         rules_errors d v rs =
         concat (map (error_of_call d VS)
           (rules_calls d (field v) (FormCondition ei) (FormMethod ei) (length pre) rs))"
proof (induction rs arbitrary: pre)
  case Nil
  then show ?case by simp
next
  case (Cons r rs)
  then have n: "rules v ! length pre = r" by simp
  from Cons.prems have "rules v = (pre @ [r]) @ rs" by simp
  from Cons.IH [OF this]
  have IH: "rules_errors d v rs =
      concat (map (error_of_call d VS)
        (rules_calls d (field v) (FormCondition ei) (FormMethod ei) (Suc (length pre)) rs))"
    by simp
  show ?case
    by (cases "outcome d (field v) r")
       (simp_all add: rule_error_of_calls [OF assms n] IH)
qed

lemma form_errors_of_calls:
  "form_errors d vs =
   concat (map (error_of_call d (PRE @ vs)) (form_calls d (length PRE) vs))"
proof (induction vs arbitrary: PRE)
  case Nil
  then show ?case by simp
next
  case (Cons v vs)
  have v: "(PRE @ v # vs) ! length PRE = v" by simp
  have here: "rules_errors d v (rules v) =
      concat (map (error_of_call d (PRE @ v # vs))
        (rules_calls d (field v) (FormCondition (length PRE)) (FormMethod (length PRE)) 0 (rules v)))"
    using rules_errors_of_calls [OF v, of "[]" "rules v" d] by simp
  have later: "form_errors d vs =
      concat (map (error_of_call d (PRE @ v # vs)) (form_calls d (Suc (length PRE)) vs))"
    using Cons.IH [of "PRE @ [v]"] by simp
  show ?case
    by (simp add: here later split: sum.splits)
qed


lemma condition_false_Skipped:
  "condition r = Some c \<Longrightarrow> c d = Inr False \<Longrightarrow> outcome d fo r = Skipped"
  by (simp add: outcome_def)

lemma validateField_calls_gated:
  "\<exists>K. calls (snd (validateField d f s)) = calls s @ K \<and>
       errors (snd (validateField d f s)) = errors s \<and>
       (\<forall>j. FieldMethod f j \<in> set K \<longrightarrow>
          (\<exists>v. find_validator (validators s) f = Some v \<and> j < length (rules v) \<and>
             (case condition (rules v ! j) of
                None \<Rightarrow> True
              | Some c \<Rightarrow> c d = Inr True \<and>
                  (\<exists>K1 K2. K = K1 @ [FieldCondition f j, FieldMethod f j] @ K2))))"
proof (cases "find_validator (validators s) f")
  case None
  then have "calls (snd (validateField d f s)) = calls s @ []"
    and "errors (snd (validateField d f s)) = errors s"
    by (simp_all add: validateField_def)
  then show ?thesis by (intro exI [of _ "[]"]) simp
next
  case (Some v)
  let ?K = "field_calls d f (field v) 0 (rules v)"
  from Some have vf: "validateField d f s = validateField_rules d f v 0 (rules v) s"
    by (simp add: validateField_def)
  have "calls (snd (validateField d f s)) = calls s @ ?K"
    by (simp add: vf validateField_rules_calls)
  moreover have "errors (snd (validateField d f s)) = errors s"
    by (simp add: vf validateField_rules_frame)
  moreover have "\<exists>v. find_validator (validators s) f = Some v \<and> j < length (rules v) \<and>
             (case condition (rules v ! j) of
                None \<Rightarrow> True
              | Some c \<Rightarrow> c d = Inr True \<and>
                  (\<exists>K1 K2. ?K = K1 @ [FieldCondition f j, FieldMethod f j] @ K2))"
    if "FieldMethod f j \<in> set ?K" for j
    using field_calls_method_gated [OF that] Some
    by simp
  ultimately show ?thesis by blast
qed

lemma card_calls:
  "form_calls example_card_doc 0 (validators example_state) =
     [FormMethod 0 0, FormMethod 0 1,
      FormMethod 1 0, FormMethod 1 1, FormMethod 1 2, FormMethod 1 3, FormMethod 1 4,
      FormMethod 2 0,
      FormCondition 3 0, FormMethod 3 0,
      FormCondition 4 0, FormMethod 4 0,
      FormCondition 5 0, FormMethod 5 0]"
  by (simp add: example_defs example_card_doc_def callback_defs rule_calls_def)


lemma example_no_calls: "calls example_state = []"
  by (simp add: example_state_def regForm_calls)

lemma example_cc_condition:
  "condition (rules (validators example_state ! 3) ! 0) = Some credit_card_selected"
  by (simp add: example_state_def regForm_validators cc_num_rules_def)

section \<open>Loops that do nothing\<close>

lemma validateForm_rules_all_skipped:
  "\<forall>r\<in>set rs. outcome d (field el) r = Skipped \<Longrightarrow>
   validateForm_rules d ei el ri rs t =
   (Inr (), t\<lparr>calls := calls t @ map (FormCondition ei) [ri..<ri + length rs]\<rparr>)"
proof (induction rs arbitrary: ri t)
  case Nil
  then show ?case by simp
next
  case (Cons r rs)
  then have r: "outcome d (field el) r = Skipped" by simp
  have u: "[ri..<ri + length (r # rs)] = ri # [Suc ri..<Suc ri + length rs]"
    by (simp add: upt_conv_Cons del: upt_Suc)
  from Cons have "validateForm_rules d ei el (Suc ri) rs
      (t\<lparr>calls := calls t @ [FormCondition ei ri]\<rparr>) =
    (Inr (), t\<lparr>calls := calls t @ [FormCondition ei ri] @
       map (FormCondition ei) [Suc ri..<Suc ri + length rs]\<rparr>)"
    by simp
  then show ?case
    by (simp only: step_Skipped [OF r] rule_calls_Skipped [OF r] u list.map append_Cons append_Nil)
qed

lemma validateField_no_rules:
  "validateField d fid (addValidator d fid [] (new_FormValidator cl hs)) =
   (Inr (), addValidator d fid [] (new_FormValidator cl hs))"
  by (simp add: validateField_def addValidator_def new_FormValidator_def find_validator_def)

section \<open>What a pass leaves as it was\<close>

lemma showValid_classList_other:
  "(\<forall>n. fo = Some n \<longrightarrow> x \<noteq> n \<and> x \<noteq> label_of d n) \<Longrightarrow>
   classList (snd (showValid d fo s)) x = classList s x"
  by (auto simp: showValid_def update_classes_def Let_def split: option.splits)

lemma validateForm_rules_classList:
  "(\<forall>n. field el = Some n \<longrightarrow> x \<noteq> n \<and> x \<noteq> label_of d n) \<or>
   (\<forall>r\<in>set rs. outcome d (field el) r = Skipped) \<Longrightarrow>
   classList (snd (validateForm_rules d ei el ri rs s)) x = classList s x"
proof (induction rs arbitrary: s ri)
  case Nil
  then show ?case by simp
next
  case (Cons r rs)
  then have rest: "(\<forall>n. field el = Some n \<longrightarrow> x \<noteq> n \<and> x \<noteq> label_of d n) \<or>
      (\<forall>r\<in>set rs. outcome d (field el) r = Skipped)"
    by auto
  show ?case
  proof (cases "outcome d (field el) r")
    case Skipped
    then show ?thesis by (simp add: form_steps Cons.IH [OF rest])
  next
    case Passed
    with Cons.prems have "\<forall>n. field el = Some n \<longrightarrow> x \<noteq> n \<and> x \<noteq> label_of d n"
      by auto
    with Passed show ?thesis
      by (simp add: form_steps Cons.IH [OF rest] showValid_classList_other)
  next
    case Failed
    then show ?thesis by (simp add: form_steps)
  next
    case (Threw e)
    then show ?thesis by (simp add: form_steps)
  qed
qed

lemma validateForm_elements_classList:
  "errors s = Some es \<Longrightarrow>
   \<forall>v\<in>set vs. (\<forall>n. field v = Some n \<longrightarrow> x \<noteq> n \<and> x \<noteq> label_of d n) \<or>
      (\<forall>r\<in>set (rules v). outcome d (field v) r = Skipped) \<Longrightarrow>
   classList (snd (validateForm_elements d ei vs s)) x = classList s x"
proof (induction vs arbitrary: s ei es)
  case Nil
  then show ?case by simp
next
  case (Cons v vs)
  then show ?case
    by (simp add: validateForm_elements_step validateForm_rules_errors validateForm_rules_classList
        split: sum.splits)
qed

lemma validateForm_classList:
  "\<forall>v\<in>set (validators s). (\<forall>n. field v = Some n \<longrightarrow> x \<noteq> n \<and> x \<noteq> label_of d n) \<or>
      (\<forall>r\<in>set (rules v). outcome d (field v) r = Skipped) \<Longrightarrow>
   classList (snd (validateForm d s)) x = classList s x"
  using validateForm_elements_classList [of "s\<lparr>errors := Some []\<rparr>" "[]" "validators s" x d 0]
  by (simp add: validateForm_snd)

lemma zip_skipped:
  assumes "getElementById d ''payment'' = Some p" and "node_value d p \<noteq> Some ''credit-card''"
  shows "\<forall>r\<in>set (zip_rules isNaN). outcome d fo r = Skipped"
  using assms by (simp add: zip_rules_def outcome_def credit_card_selected_def)

lemma cvv_skipped:
  assumes "getElementById d ''payment'' = Some p" and "node_value d p \<noteq> Some ''credit-card''"
  shows "\<forall>r\<in>set (cvv_rules isNaN). outcome d fo r = Skipped"
  using assms by (simp add: cvv_rules_def outcome_def credit_card_selected_def)

lemma regForm_classList:
  "classList (addRegFormValidationRules isNaN d (new_FormValidator cl hs)) = cl"
  by (simp add: addRegFormValidationRules_def addValidator_def new_FormValidator_def)

section \<open>A visit that ends without errors, evaluated\<close>

lemma paypal_outcomes:
  "list_all (\<lambda>r. outcome example_paypal_page (Some 0) r = Passed) name_rules"
  "list_all (\<lambda>r. outcome example_paypal_page (Some 1) r = Passed) email_rules"
  "list_all (\<lambda>r. outcome example_paypal_page (Some 2) r = Passed) activities_rules"
  "list_all (\<lambda>r. outcome example_paypal_page (Some 3) r = Skipped) (cc_num_rules example_isNaN)"
  "list_all (\<lambda>r. outcome example_paypal_page (Some 4) r = Skipped) (zip_rules example_isNaN)"
  "list_all (\<lambda>r. outcome example_paypal_page (Some 5) r = Skipped) (cvv_rules example_isNaN)"
  by (simp_all add: example_paypal_page_def example_defs callback_defs name_pattern_def
      email_pattern_def one_or_more_def letter_def in_range_def white_space_def)

lemma edited_frame:
  "validators example_edited = validators example_state"
  "errors example_edited = errors example_state"
  by (simp_all add: example_edited_def validateField_def validateField_rules_frame
      split: option.splits)

lemma cc_num_selector:
  "\<exists>m. querySelectorAll example_card_page (hint_selector ''cc-num'') = Inr m"
  by (simp add: example_card_page_def example_paypal_page_def example_doc_def hint_selector_def
      example_querySelectorAll_def name_start_def name_char_def letter_def digit_def in_range_def)

lemma edited_classList:
  "classList example_edited = (\<lambda>n. [])(3 := [''error''], 13 := [''not-valid''])"
proof -
  obtain m where m: "querySelectorAll example_card_page (hint_selector ''cc-num'') = Inr m"
    using cc_num_selector by blast
  let ?v = "\<lparr>fieldId = ''cc-num'', rules = cc_num_rules example_isNaN, field = Some 3\<rparr>"
  have f: "find_validator (validators example_state) ''cc-num'' = Some ?v"
    by (simp add: example_defs find_validator_def)
  have rs: "cc_num_rules example_isNaN =
      cc_num_rules example_isNaN ! 0 # tl (cc_num_rules example_isNaN)"
    by (simp add: cc_num_rules_def)
  have o: "outcome example_card_page (field ?v) (cc_num_rules example_isNaN ! 0) = Failed"
    by (simp add: cc_num_rules_def example_card_page_def example_paypal_page_def example_doc_def
        example_elements_def callback_defs)
  have g: "getElementById example_card_page ''cc-num'' = Some 3"
    and l: "label_of example_card_page 3 = 13"
    by (simp_all add: example_card_page_def example_paypal_page_def example_doc_def
        example_elements_def label_of_def)
  have c: "classList example_state = (\<lambda>n. [])"
    by (simp add: example_defs)
  have ee: "example_edited = snd (validateField_rules example_card_page ''cc-num'' ?v 0
      (cc_num_rules example_isNaN ! 0 # tl (cc_num_rules example_isNaN)) example_state)"
    using f rs by (simp add: example_edited_def validateField_def)
  show ?thesis
    unfolding ee
    by (simp add: field_step_Failed [OF o m] showHint_def g l Let_def update_classes_def c
        class_add_def class_remove_def fun_eq_iff)
qed

lemma paypal_result:
  "form_result example_paypal_page (validators example_state) = Inr ()"
  "form_errors example_paypal_page (validators example_state) = []"
  by (simp_all add: example_paypal_page_def example_defs callback_defs name_pattern_def
      email_pattern_def one_or_more_def letter_def in_range_def white_space_def)

lemma paypal_labels:
  "label_of example_paypal_page 0 = 10" "label_of example_paypal_page 1 = 11"
  "label_of example_paypal_page 2 = 2" "label_of example_paypal_page 3 = 13"
  by (simp_all add: example_paypal_page_def example_doc_def label_of_def)

lemma paypal_untouched:
  "x \<in> {3, 13} \<Longrightarrow>
   \<forall>v\<in>set (validators example_edited).
      (\<forall>n. field v = Some n \<longrightarrow> x \<noteq> n \<and> x \<noteq> label_of example_paypal_page n) \<or>
      (\<forall>r\<in>set (rules v). outcome example_paypal_page (field v) r = Skipped)"
  using paypal_outcomes(4,5,6) paypal_labels
  by (auto simp: edited_frame example_defs list_all_iff)

lemma paypal_name_valid:
  "classList (snd (validateForm example_paypal_page example_edited)) 10 = [''valid'']"
proof -
  have vs: "validators example_edited =
      \<lparr>fieldId = ''name'', rules = name_rules, field = Some 0\<rparr> # tl (validators example_state)"
    by (simp add: edited_frame example_defs)
  have rest: "\<forall>v\<in>set (tl (validators example_state)).
      (\<forall>n. field v = Some n \<longrightarrow> 10 \<noteq> n \<and> 10 \<noteq> label_of example_paypal_page n) \<or>
      (\<forall>r\<in>set (rules v). outcome example_paypal_page (field v) r = Skipped)"
    by (simp add: example_defs example_paypal_page_def label_of_def)
  have o: "outcome example_paypal_page (Some 0) (name_rules ! 0) = Passed"
    "outcome example_paypal_page (Some 0) (name_rules ! 1) = Passed"
    "outcome example_paypal_page (Some 0) (name_rules ! 2) = Passed"
    using paypal_outcomes(1) by (simp_all add: name_rules_def)
  let ?v = "\<lparr>fieldId = ''name'', rules = name_rules, field = Some 0\<rparr>"
  let ?s = "example_edited\<lparr>errors := Some []\<rparr>"
  let ?s1 = "snd (validateForm_rules example_paypal_page 0 ?v 0 (rules ?v) ?s)"
  have rv: "rules ?v = [name_rules ! 0, name_rules ! 1, name_rules ! 2]"
    by (simp add: name_rules_def)
  have c: "classList ?s1 10 = [''valid'']"
    unfolding rv using o
    by (simp add: step_Passed showValid_def update_classes_def Let_def
        paypal_labels edited_classList class_add_def class_remove_def)
  have e: "errors ?s1 = Some ([] @ rules_errors example_paypal_page ?v (rules ?v))"
    by (rule validateForm_rules_errors) simp
  have ok: "rules_result example_paypal_page (field ?v) (rules ?v) = Inr ()"
    unfolding rv using o by simp
  have "classList (snd (validateForm_elements example_paypal_page (Suc 0)
      (tl (validators example_state)) ?s1)) 10 = classList ?s1 10"
    by (rule validateForm_elements_classList [OF e rest])
  then show ?thesis
    using c ok by (simp add: validateForm_snd vs validateForm_elements_step [where es = "[]"])
qed

section \<open>The claims\<close>



text \<open>
  Claim C2. Condition gating. In every pass of \<^verbatim>\<open>validateForm\<close>, also one that
  throws, with \<open>K\<close> the callbacks the pass invoked, in order: a method is in \<open>K\<close> only
  if its rule has no condition, or its condition returned true and was invoked
  immediately before it; and the error list is exactly the records of the methods in
  \<open>K\<close> that returned false, so a rule whose method was not invoked contributes no
  record, whatever its method would return. The same gating holds in
  \<^verbatim>\<open>validateField\<close>, which never touches the error list. When the condition of a
  rule returns false, both loops go on with the next rule in a state that differs only
  by the record of the condition's call.
\<close>

theorem condition_gating:
  "(\<exists>K. calls (snd (validateForm d s)) = calls s @ K \<and>
        errors (snd (validateForm d s)) = Some (concat (map (error_of_call d (validators s)) K)) \<and>
        (\<forall>i j. FormMethod i j \<in> set K \<longrightarrow>
           i < length (validators s) \<and> j < length (rules (validators s ! i)) \<and>
           (case condition (rules (validators s ! i) ! j) of
              None \<Rightarrow> True
            | Some c \<Rightarrow> c d = Inr True \<and>
                (\<exists>K1 K2. K = K1 @ [FormCondition i j, FormMethod i j] @ K2)))) \<and>
   (\<exists>K. calls (snd (validateField d f s)) = calls s @ K \<and>
        errors (snd (validateField d f s)) = errors s \<and>
        (\<forall>j. FieldMethod f j \<in> set K \<longrightarrow>
           (\<exists>v. find_validator (validators s) f = Some v \<and> j < length (rules v) \<and>
              (case condition (rules v ! j) of
                 None \<Rightarrow> True
               | Some c \<Rightarrow> c d = Inr True \<and>
                   (\<exists>K1 K2. K = K1 @ [FieldCondition f j, FieldMethod f j] @ K2))))) \<and>
   (condition r = Some c \<and> c d = Inr False \<longrightarrow>
      validateForm_rules d ei el ri (r # rs) t =
        validateForm_rules d ei el (Suc ri) rs (t\<lparr>calls := calls t @ [FormCondition ei ri]\<rparr>) \<and>
      validateField_rules d f el ri (r # rs) t =
        validateField_rules d f el (Suc ri) rs (t\<lparr>calls := calls t @ [FieldCondition f ri]\<rparr>))"
proof (intro conjI impI)
  let ?K = "form_calls d 0 (validators s)"
  have "calls (snd (validateForm d s)) = calls s @ ?K"
    by (rule validateForm_calls)
  moreover have "errors (snd (validateForm d s)) =
      Some (concat (map (error_of_call d (validators s)) ?K))"
    using form_errors_of_calls [of d "validators s" "[]"] by (simp add: validateForm_errors)
  moreover have "i < length (validators s) \<and> j < length (rules (validators s ! i)) \<and>
           (case condition (rules (validators s ! i) ! j) of
              None \<Rightarrow> True
            | Some c \<Rightarrow> c d = Inr True \<and>
                (\<exists>K1 K2. ?K = K1 @ [FormCondition i j, FormMethod i j] @ K2))"
    if "FormMethod i j \<in> set ?K" for i j
    using form_calls_method_gated [OF that] by simp
  ultimately show "\<exists>K. calls (snd (validateForm d s)) = calls s @ K \<and>
        errors (snd (validateForm d s)) = Some (concat (map (error_of_call d (validators s)) K)) \<and>
        (\<forall>i j. FormMethod i j \<in> set K \<longrightarrow>
           i < length (validators s) \<and> j < length (rules (validators s ! i)) \<and>
           (case condition (rules (validators s ! i) ! j) of
              None \<Rightarrow> True
            | Some c \<Rightarrow> c d = Inr True \<and>
                (\<exists>K1 K2. K = K1 @ [FormCondition i j, FormMethod i j] @ K2)))"
    by blast
next
  show "\<exists>K. calls (snd (validateField d f s)) = calls s @ K \<and>
        errors (snd (validateField d f s)) = errors s \<and>
        (\<forall>j. FieldMethod f j \<in> set K \<longrightarrow>
           (\<exists>v. find_validator (validators s) f = Some v \<and> j < length (rules v) \<and>
              (case condition (rules v ! j) of
                 None \<Rightarrow> True
               | Some c \<Rightarrow> c d = Inr True \<and>
                   (\<exists>K1 K2. K = K1 @ [FieldCondition f j, FieldMethod f j] @ K2))))"
    by (rule validateField_calls_gated)
next
  assume "condition r = Some c \<and> c d = Inr False"
  then have sk: "outcome d (field el) r = Skipped"
    using condition_false_Skipped by blast
  show "validateForm_rules d ei el ri (r # rs) t =
        validateForm_rules d ei el (Suc ri) rs (t\<lparr>calls := calls t @ [FormCondition ei ri]\<rparr>)"
    by (simp add: step_Skipped [OF sk] rule_calls_Skipped [OF sk])
  show "validateField_rules d f el ri (r # rs) t =
        validateField_rules d f el (Suc ri) rs (t\<lparr>calls := calls t @ [FieldCondition f ri]\<rparr>)"
    by (simp add: field_step_Skipped [OF sk] rule_calls_Skipped [OF sk])
qed

text \<open>
  On the example page with payment by credit card the first method of the \<open>cc-num\<close>
  validator is invoked, right after its condition, which returned true; with payment
  by PayPal the condition returns false and the method is not invoked.
\<close>

theorem condition_gating_witness:
  "FormMethod 3 0 \<in> set (calls (snd (validateForm example_card_doc example_state))) \<and>
   condition (rules (validators example_state ! 3) ! 0) = Some credit_card_selected \<and>
   credit_card_selected example_card_doc = Inr True \<and>
   (\<exists>K1 K2. calls (snd (validateForm example_card_doc example_state)) =
      K1 @ [FormCondition 3 0, FormMethod 3 0] @ K2) \<and>
   credit_card_selected example_doc = Inr False \<and>
   FormMethod 3 0 \<notin> set (calls (snd (validateForm example_doc example_state))) \<and>
   validateForm_rules example_doc 3 (validators example_state ! 3) 0
     [rules (validators example_state ! 3) ! 0] example_state =
     (Inr (), example_state\<lparr>calls := calls example_state @ [FormCondition 3 0]\<rparr>)"
proof -
  have off: "credit_card_selected example_doc = Inr False"
    by (simp add: credit_card_selected_def example_doc_def example_elements_def)
  have called: "FormMethod 3 0 \<in> set (calls (snd (validateForm example_card_doc example_state)))"
    by (simp add: validateForm_calls example_no_calls card_calls)
  from condition_gating [of example_card_doc example_state, THEN conjunct1]
  obtain K where K: "calls (snd (validateForm example_card_doc example_state)) = calls example_state @ K"
    and g: "\<forall>i j. FormMethod i j \<in> set K \<longrightarrow>
           i < length (validators example_state) \<and> j < length (rules (validators example_state ! i)) \<and>
           (case condition (rules (validators example_state ! i) ! j) of
              None \<Rightarrow> True
            | Some c \<Rightarrow> c example_card_doc = Inr True \<and>
                (\<exists>K1 K2. K = K1 @ [FormCondition i j, FormMethod i j] @ K2))"
    by blast
  from K have K': "calls (snd (validateForm example_card_doc example_state)) = K"
    by (simp add: example_no_calls)
  from called K' have "FormMethod 3 0 \<in> set K" by simp
  with g have "case condition (rules (validators example_state ! 3) ! 0) of
              None \<Rightarrow> True
            | Some c \<Rightarrow> c example_card_doc = Inr True \<and>
                (\<exists>K1 K2. K = K1 @ [FormCondition 3 0, FormMethod 3 0] @ K2)"
    by blast
  then have on: "credit_card_selected example_card_doc = Inr True"
    and order: "\<exists>K1 K2. calls (snd (validateForm example_card_doc example_state)) =
      K1 @ [FormCondition 3 0, FormMethod 3 0] @ K2"
    unfolding example_cc_condition K' by simp_all
  from condition_gating [of example_doc example_state, THEN conjunct1]
  obtain L where L: "calls (snd (validateForm example_doc example_state)) = calls example_state @ L"
    and h: "\<forall>i j. FormMethod i j \<in> set L \<longrightarrow>
           i < length (validators example_state) \<and> j < length (rules (validators example_state ! i)) \<and>
           (case condition (rules (validators example_state ! i) ! j) of
              None \<Rightarrow> True
            | Some c \<Rightarrow> c example_doc = Inr True \<and>
                (\<exists>K1 K2. L = K1 @ [FormCondition i j, FormMethod i j] @ K2))"
    by blast
  have "FormMethod 3 0 \<notin> set L"
  proof
    assume "FormMethod 3 0 \<in> set L"
    with h have "case condition (rules (validators example_state ! 3) ! 0) of
              None \<Rightarrow> True
            | Some c \<Rightarrow> c example_doc = Inr True \<and>
                (\<exists>K1 K2. L = K1 @ [FormCondition 3 0, FormMethod 3 0] @ K2)"
      by blast
    then have "credit_card_selected example_doc = Inr True"
      unfolding example_cc_condition by simp
    with off show False by simp
  qed
  with L have skipped: "FormMethod 3 0 \<notin> set (calls (snd (validateForm example_doc example_state)))"
    by (simp add: example_no_calls)
  from condition_gating [where d = example_doc and r = "rules (validators example_state ! 3) ! 0"
      and c = credit_card_selected and ei = 3 and el = "validators example_state ! 3" and ri = 0
      and rs = "[]" and t = example_state,
      THEN conjunct2, THEN conjunct2, THEN mp, OF conjI [OF example_cc_condition off],
      THEN conjunct1]
  have step: "validateForm_rules example_doc 3 (validators example_state ! 3) 0
     [rules (validators example_state ! 3) ! 0] example_state =
     (Inr (), example_state\<lparr>calls := calls example_state @ [FormCondition 3 0]\<rparr>)"
    by (simp only: validateForm_rules.simps(1))
  from called example_cc_condition on order off skipped step show ?thesis
    by (intro conjI)
qed

text \<open>
  Claim C3. When \<^verbatim>\<open>validateForm\<close> returns, it returns true exactly when the error list
  it built is empty, and the records stand in registration order: the list is the
  concatenation, validator by validator in the order of \<^verbatim>\<open>this.validators\<close>, of what
  each validator contributes (nothing or one record), so the field identifiers of the
  records form a subsequence of the registered identifiers.
\<close>

theorem validateForm_result_shape:
  assumes "validateForm d s = (Inr isValid, s')"
  shows "\<exists>es. errors s' = Some es \<and> isValid = (es = []) \<and>
              subseq (map error_fieldId es) (map fieldId (validators s)) \<and>
              es = concat (map (\<lambda>v. rules_errors d v (rules v)) (validators s))"
proof -
  have s': "s' = snd (validateForm d s)" and f: "fst (validateForm d s) = Inr isValid"
    using assms by simp_all
  from f have ok: "form_result d (validators s) = Inr ()"
    and v: "isValid = (form_errors d (validators s) = [])"
    by (auto simp: validateForm_fst split: sum.splits)
  have "errors s' = Some (form_errors d (validators s))"
    by (simp add: s' validateForm_errors)
  moreover have "subseq (map error_fieldId (form_errors d (validators s))) (map fieldId (validators s))"
    by (rule form_errors_subseq)
  moreover note v form_errors_complete [OF ok]
  ultimately show ?thesis by blast
qed

text \<open>
  On the example page the pass returns false, with a non-empty list in registration
  order.
\<close>

theorem validateForm_result_shape_witness:
  "validateForm example_doc example_state = (Inr False, snd (validateForm example_doc example_state)) \<and>
   (\<exists>es. errors (snd (validateForm example_doc example_state)) = Some es \<and> es \<noteq> [] \<and>
         subseq (map error_fieldId es) (map fieldId (validators example_state)))"
proof -
  have run: "validateForm example_doc example_state =
      (Inr False, snd (validateForm example_doc example_state))"
    using example_fst by (simp add: prod_eq_iff)
  from validateForm_result_shape [OF run] run show ?thesis by auto
qed

text \<open>
  Claim C4, as the claim states it, fails: a field whose rules are all skipped is not
  given the valid presentation state. \<^verbatim>\<open>showValid\<close> is called only after a method
  returned true (line 176), and a skipped rule leaves the loop body at the
  \<^verbatim>\<open>continue\<close> of line 160. In the visit of the example, the empty card number was
  checked on its own while payment was by credit card, which left the class \<open>error\<close>
  on the input (element 3) and \<open>not-valid\<close> on its label (element 13). The visitor
  then pays by PayPal: the three rules of \<open>cc-num\<close> are skipped, the pass returns
  true with no error record, and the input still carries \<open>error\<close>, its label still
  \<open>not-valid\<close> and not \<open>valid\<close>, while the label of the name field (element 10)
  carries \<open>valid\<close>.
\<close>

theorem all_skipped_field_counterexample:
  "fieldId (validators example_edited ! 3) = ''cc-num'' \<and>
   field (validators example_edited ! 3) = Some 3 \<and>
   label_of example_paypal_page 3 = 13 \<and>
   list_all (\<lambda>r. outcome example_paypal_page (field (validators example_edited ! 3)) r = Skipped)
     (rules (validators example_edited ! 3)) \<and>
   classList example_edited 3 = [''error''] \<and>
   classList example_edited 13 = [''not-valid''] \<and>
   fst (validateForm example_paypal_page example_edited) = Inr True \<and>
   errors (snd (validateForm example_paypal_page example_edited)) = Some [] \<and>
   classList (snd (validateForm example_paypal_page example_edited)) 3 = [''error''] \<and>
   classList (snd (validateForm example_paypal_page example_edited)) 13 = [''not-valid''] \<and>
   classList (snd (validateForm example_paypal_page example_edited)) 10 = [''valid'']"
proof -
  have v: "validators example_edited ! 3 =
      \<lparr>fieldId = ''cc-num'', rules = cc_num_rules example_isNaN, field = Some 3\<rparr>"
    by (simp add: edited_frame example_defs)
  have sk: "list_all (\<lambda>r. outcome example_paypal_page (field (validators example_edited ! 3)) r = Skipped)
     (rules (validators example_edited ! 3))"
    using paypal_outcomes(4) by (simp add: v)
  have r: "fst (validateForm example_paypal_page example_edited) = Inr True"
    by (simp add: validateForm_fst edited_frame paypal_result)
  have e: "errors (snd (validateForm example_paypal_page example_edited)) = Some []"
    by (simp add: validateForm_errors edited_frame paypal_result)
  have c3: "classList (snd (validateForm example_paypal_page example_edited)) 3 = classList example_edited 3"
    by (rule validateForm_classList [OF paypal_untouched]) simp
  have c13: "classList (snd (validateForm example_paypal_page example_edited)) 13 = classList example_edited 13"
    by (rule validateForm_classList [OF paypal_untouched]) simp
  show ?thesis
    using sk r e by (simp add: v paypal_labels c3 c13 edited_classList paypal_name_valid)
qed

text \<open>
  Claim C4, amended. A validator whose rules are all skipped in a pass contributes no
  error record (every record of the pass carries the identifier of another validator
  entry) and none of its methods is invoked; the inner loop over its rules returns with
  nothing changed but the record of the condition calls, so the pass does not mark the
  field valid. The class list of an element \<open>x\<close> is after the pass what it was before
  whenever every validator whose field is \<open>x\<close>, or is an input with parent \<open>x\<close>, has
  all its rules skipped: an \<open>error\<close> or \<open>not-valid\<close> class from an earlier evaluation
  stays, and no \<open>valid\<close> class is added. In particular, on the registration form with
  a payment selector whose value is not \<open>credit-card\<close>, no record carries \<open>cc-num\<close>
  and no method of the \<open>cc-num\<close> validator (entry 3) is invoked, whatever the card
  number field holds, the empty string included, and the pass changes no class list
  but those of the name, email and activities fields and of their labels.
\<close>

theorem all_skipped_field_untouched:
  "(i < length (validators s) \<and>
    (\<forall>r\<in>set (rules (validators s ! i)). outcome d (field (validators s ! i)) r = Skipped) \<longrightarrow>
    (\<exists>es K. errors (snd (validateForm d s)) = Some es \<and>
       error_fieldId ` set es \<subseteq>
         fieldId ` (set (take i (validators s)) \<union> set (drop (Suc i) (validators s))) \<and>
       calls (snd (validateForm d s)) = calls s @ K \<and>
       (\<forall>j. FormMethod i j \<notin> set K)) \<and>
    validateForm_rules d i (validators s ! i) 0 (rules (validators s ! i)) t =
      (Inr (), t\<lparr>calls := calls t @
         map (FormCondition i) [0..<length (rules (validators s ! i))]\<rparr>)) \<and>
   ((\<forall>v\<in>set (validators s). \<forall>n. field v = Some n \<and> (x = n \<or> x = label_of d n) \<longrightarrow>
        (\<forall>r\<in>set (rules v). outcome d (field v) r = Skipped)) \<longrightarrow>
    classList (snd (validateForm d s)) x = classList s x) \<and>
   (getElementById d ''payment'' = Some p \<and> node_value d p \<noteq> Some ''credit-card'' \<longrightarrow>
    (\<exists>es K.
       errors (snd (validateForm d (addRegFormValidationRules isNaN d (new_FormValidator cl hs)))) =
         Some es \<and>
       ''cc-num'' \<notin> error_fieldId ` set es \<and>
       calls (snd (validateForm d (addRegFormValidationRules isNaN d (new_FormValidator cl hs)))) = K \<and>
       (\<forall>j. FormMethod 3 j \<notin> set K)) \<and>
    ((\<forall>f\<in>{''name'', ''email'', ''activities''}. \<forall>n. form_elements d f = Some n \<longrightarrow>
         y \<noteq> n \<and> y \<noteq> label_of d n) \<longrightarrow>
     classList (snd (validateForm d (addRegFormValidationRules isNaN d (new_FormValidator cl hs)))) y =
       cl y))"
proof (intro conjI impI)
  assume h: "i < length (validators s) \<and>
    (\<forall>r\<in>set (rules (validators s ! i)). outcome d (field (validators s ! i)) r = Skipped)"
  then have i: "i < length (validators s)"
    and sk: "\<forall>r\<in>set (rules (validators s ! i)). outcome d (field (validators s ! i)) r = Skipped"
    by simp_all
  show "\<exists>es K. errors (snd (validateForm d s)) = Some es \<and>
       error_fieldId ` set es \<subseteq>
         fieldId ` (set (take i (validators s)) \<union> set (drop (Suc i) (validators s))) \<and>
       calls (snd (validateForm d s)) = calls s @ K \<and>
       (\<forall>j. FormMethod i j \<notin> set K)"
    using all_skipped_core [OF i sk]
    by (intro exI [of _ "form_errors d (validators s)"] exI [of _ "form_calls d 0 (validators s)"])
       (simp add: validateForm_errors validateForm_calls)
  show "validateForm_rules d i (validators s ! i) 0 (rules (validators s ! i)) t =
      (Inr (), t\<lparr>calls := calls t @
         map (FormCondition i) [0..<length (rules (validators s ! i))]\<rparr>)"
    using validateForm_rules_all_skipped [OF sk, of i 0 t] by simp
next
  assume "\<forall>v\<in>set (validators s). \<forall>n. field v = Some n \<and> (x = n \<or> x = label_of d n) \<longrightarrow>
        (\<forall>r\<in>set (rules v). outcome d (field v) r = Skipped)"
  then have "\<forall>v\<in>set (validators s).
      (\<forall>n. field v = Some n \<longrightarrow> x \<noteq> n \<and> x \<noteq> label_of d n) \<or>
      (\<forall>r\<in>set (rules v). outcome d (field v) r = Skipped)"
    by blast
  then show "classList (snd (validateForm d s)) x = classList s x"
    by (rule validateForm_classList)
next
  let ?s = "addRegFormValidationRules isNaN d (new_FormValidator cl hs)"
  assume "getElementById d ''payment'' = Some p \<and> node_value d p \<noteq> Some ''credit-card''"
  then have sk: "\<forall>r\<in>set (rules (validators ?s ! 3)). outcome d (field (validators ?s ! 3)) r = Skipped"
    using cc_num_skipped [of d p isNaN] by (simp add: regForm_validators)
  have i: "3 < length (validators ?s)"
    by (simp add: regForm_validators)
  have "error_fieldId ` set (form_errors d (validators ?s)) \<subseteq>
      fieldId ` (set (take 3 (validators ?s)) \<union> set (drop (Suc 3) (validators ?s)))"
    by (rule all_skipped_core(1) [OF i sk])
  then have "''cc-num'' \<notin> error_fieldId ` set (form_errors d (validators ?s))"
    by (auto simp: regForm_validators)
  then show "\<exists>es K. errors (snd (validateForm d ?s)) = Some es \<and>
       ''cc-num'' \<notin> error_fieldId ` set es \<and>
       calls (snd (validateForm d ?s)) = K \<and> (\<forall>j. FormMethod 3 j \<notin> set K)"
    using all_skipped_core(2) [OF i sk]
    by (intro exI [of _ "form_errors d (validators ?s)"] exI [of _ "form_calls d 0 (validators ?s)"])
       (simp add: validateForm_errors validateForm_calls regForm_calls)
next
  let ?s = "addRegFormValidationRules isNaN d (new_FormValidator cl hs)"
  assume pay: "getElementById d ''payment'' = Some p \<and> node_value d p \<noteq> Some ''credit-card''"
  assume other: "\<forall>f\<in>{''name'', ''email'', ''activities''}. \<forall>n. form_elements d f = Some n \<longrightarrow>
         y \<noteq> n \<and> y \<noteq> label_of d n"
  from pay have sk: "\<forall>r\<in>set (cc_num_rules isNaN). outcome d fo r = Skipped"
    "\<forall>r\<in>set (zip_rules isNaN). outcome d fo r = Skipped"
    "\<forall>r\<in>set (cvv_rules isNaN). outcome d fo r = Skipped" for fo
    using cc_num_skipped [of d p isNaN fo] zip_skipped [of d p isNaN fo] cvv_skipped [of d p isNaN fo]
    by simp_all
  have "\<forall>v\<in>set (validators ?s).
      (\<forall>n. field v = Some n \<longrightarrow> y \<noteq> n \<and> y \<noteq> label_of d n) \<or>
      (\<forall>r\<in>set (rules v). outcome d (field v) r = Skipped)"
    using other sk by (simp add: regForm_validators)
  then have "classList (snd (validateForm d ?s)) y = classList ?s y"
    by (rule validateForm_classList)
  then show "classList (snd (validateForm d ?s)) y = cl y"
    by (simp only: regForm_classList)
qed

text \<open>
  In the visit of the example, the pass with payment by PayPal leaves the classes of
  the card number input and of its label as the earlier check of the field left them.
  On the example page itself, where nothing was checked before, the label of the card
  number has no class after the pass.
\<close>

theorem all_skipped_field_untouched_witness:
  "(3::nat) < length (validators example_edited) \<and>
   list_all (\<lambda>r. outcome example_paypal_page (field (validators example_edited ! 3)) r = Skipped)
     (rules (validators example_edited ! 3)) \<and>
   validateForm_rules example_paypal_page 3 (validators example_edited ! 3) 0
     (rules (validators example_edited ! 3)) example_edited =
     (Inr (), example_edited\<lparr>calls := calls example_edited @
        map (FormCondition 3) [0..<length (rules (validators example_edited ! 3))]\<rparr>) \<and>
   classList example_edited 3 = [''error''] \<and>
   classList example_edited 13 = [''not-valid''] \<and>
   classList (snd (validateForm example_paypal_page example_edited)) 3 = [''error''] \<and>
   classList (snd (validateForm example_paypal_page example_edited)) 13 = [''not-valid''] \<and>
   getElementById example_doc ''payment'' = Some 6 \<and>
   node_value example_doc 6 \<noteq> Some ''credit-card'' \<and>
   (\<exists>es K. errors (snd (validateForm example_doc example_state)) = Some es \<and>
      ''cc-num'' \<notin> error_fieldId ` set es \<and>
      calls (snd (validateForm example_doc example_state)) = K \<and>
      FormMethod 3 0 \<notin> set K) \<and>
   classList (snd (validateForm example_doc example_state)) 13 = []"
proof -
  have i: "(3::nat) < length (validators example_edited)"
    by (simp add: edited_frame example_defs)
  have v: "validators example_edited ! 3 =
      \<lparr>fieldId = ''cc-num'', rules = cc_num_rules example_isNaN, field = Some 3\<rparr>"
    by (simp add: edited_frame example_defs)
  have sk: "list_all (\<lambda>r. outcome example_paypal_page (field (validators example_edited ! 3)) r = Skipped)
     (rules (validators example_edited ! 3))"
    using paypal_outcomes(4) by (simp add: v)
  then have sk': "\<forall>r\<in>set (rules (validators example_edited ! 3)).
      outcome example_paypal_page (field (validators example_edited ! 3)) r = Skipped"
    by (simp only: list_all_iff)
  from all_skipped_field_untouched
    [where d = example_paypal_page and i = 3 and s = example_edited and t = example_edited,
     THEN conjunct1, THEN mp, OF conjI [OF i sk'], THEN conjunct2]
  have loop: "validateForm_rules example_paypal_page 3 (validators example_edited ! 3) 0
     (rules (validators example_edited ! 3)) example_edited =
     (Inr (), example_edited\<lparr>calls := calls example_edited @
        map (FormCondition 3) [0..<length (rules (validators example_edited ! 3))]\<rparr>)" .
  have e3: "classList example_edited 3 = [''error'']"
    and e13: "classList example_edited 13 = [''not-valid'']"
    by (simp_all add: edited_classList)
  have u: "\<forall>v\<in>set (validators example_edited).
      \<forall>n. field v = Some n \<and> (x = n \<or> x = label_of example_paypal_page n) \<longrightarrow>
        (\<forall>r\<in>set (rules v). outcome example_paypal_page (field v) r = Skipped)"
    if "x \<in> {3, 13}" for x
    using paypal_untouched [OF that] by blast
  from all_skipped_field_untouched
    [where d = example_paypal_page and s = example_edited and x = 3,
     THEN conjunct2, THEN conjunct1, THEN mp, OF u]
  have c3: "classList (snd (validateForm example_paypal_page example_edited)) 3 = [''error'']"
    by (simp add: e3)
  from all_skipped_field_untouched
    [where d = example_paypal_page and s = example_edited and x = 13,
     THEN conjunct2, THEN conjunct1, THEN mp, OF u]
  have c13: "classList (snd (validateForm example_paypal_page example_edited)) 13 = [''not-valid'']"
    by (simp add: e13)
  have p: "getElementById example_doc ''payment'' = Some 6"
    and nv: "node_value example_doc 6 \<noteq> Some ''credit-card''"
    by (simp_all add: example_defs)
  have s: "example_state =
      addRegFormValidationRules example_isNaN example_doc (new_FormValidator (\<lambda>n. []) [])"
    by (simp add: example_state_def)
  note card = all_skipped_field_untouched
    [where d = example_doc and p = 6 and isNaN = example_isNaN and cl = "\<lambda>n. []" and hs = "[]"
       and y = 13,
     THEN conjunct2, THEN conjunct2, THEN mp, OF conjI [OF p nv]]
  from card [THEN conjunct1]
  have "\<exists>es K. errors (snd (validateForm example_doc example_state)) = Some es \<and>
      ''cc-num'' \<notin> error_fieldId ` set es \<and>
      calls (snd (validateForm example_doc example_state)) = K \<and>
      (\<forall>j. FormMethod 3 j \<notin> set K)"
    unfolding s [symmetric] by blast
  then have ex: "\<exists>es K. errors (snd (validateForm example_doc example_state)) = Some es \<and>
      ''cc-num'' \<notin> error_fieldId ` set es \<and>
      calls (snd (validateForm example_doc example_state)) = K \<and>
      FormMethod 3 0 \<notin> set K"
    by blast
  have o: "\<forall>f\<in>{''name'', ''email'', ''activities''}. \<forall>n. form_elements example_doc f = Some n \<longrightarrow>
      (13::nat) \<noteq> n \<and> 13 \<noteq> label_of example_doc n"
    by (simp add: example_doc_def example_elements_def label_of_def)
  from card [THEN conjunct2, THEN mp, OF o]
  have d13: "classList (snd (validateForm example_doc example_state)) 13 = []"
    unfolding s [symmetric] .
  show ?thesis
    using i sk loop e3 e13 c3 c13 p nv ex d13 by (intro conjI)
qed

text \<open>
  Claim C5. \<^verbatim>\<open>validateField\<close> with an identifier no validator carries returns
  normally (it does not throw), having added one \<^verbatim>\<open>console.warn\<close> entry and nothing
  else: \<^verbatim>\<open>this.errors\<close>, every class list, every hint element and the registry are as
  before, and no callback was invoked.
\<close>

theorem validateField_unknown_field:
  assumes "fid \<notin> fieldId ` set (validators s)"
  shows "validateField d fid s =
           (Inr (), s\<lparr>console := console s @ [[''No validator found for field with id:'', fid]]\<rparr>) \<and>
         errors (snd (validateField d fid s)) = errors s \<and>
         calls (snd (validateField d fid s)) = calls s \<and>
         classList (snd (validateField d fid s)) = classList s \<and>
         hints (snd (validateField d fid s)) = hints s \<and>
         validators (snd (validateField d fid s)) = validators s"
  using assms by (simp add: validateField_def find_validator_None [symmetric])

text \<open>The example form has no field \<open>title\<close>.\<close>

theorem validateField_unknown_field_witness:
  "''title'' \<notin> fieldId ` set (validators example_state) \<and>
   validateField example_doc ''title'' example_state =
     (Inr (), example_state\<lparr>console := [[''No validator found for field with id:'', ''title'']]\<rparr>)"
proof -
  have h: "''title'' \<notin> fieldId ` set (validators example_state)"
    by (simp add: example_defs)
  have c: "console example_state = []"
    by (simp add: example_defs)
  from validateField_unknown_field [OF h, of example_doc] h c show ?thesis by simp
qed

text \<open>
  Claim C6, as the claim states it, fails: for the email \<open>a.b@@c.com\<close> the first
  \<open>.\<close> (index 1) stands before the first \<open>@\<close> (index 3), so the fifth rule fails
  and the rule on a single \<open>@\<close> is never reached. On the example page the one record
  for the email field carries the fifth rule's message.
\<close>

theorem email_double_at_counterexample:
  "filter (\<lambda>e. error_fieldId e = ''email'')
     (the (errors (snd (validateForm example_doc example_state)))) =
     [Error ''email'' ''The 'at' symbol must be before the 'dot' symbol.''] \<and>
   filter (\<lambda>e. error_fieldId e = ''email'')
     (the (errors (snd (validateForm example_doc example_state)))) \<noteq>
     [Error ''email'' ''The 'at' symbol should only appear once.'']"
  by (simp add: validateForm_errors example_errors)

text \<open>
  Claim C6, amended. On the registration form, whenever the email field holds
  \<open>a.b@@c.com\<close> and the pass returns, the pass returns false, exactly one record is
  for the email field, and its message is that of the rule "the at symbol must be
  before the dot symbol" (rule 4 of entry 1, counting from 0); the methods of the rule
  on a single \<open>@\<close> (rule 5) and of the format rule (rule 6) are not invoked.
\<close>

theorem email_double_at_message:
  assumes n: "form_elements d ''email'' = Some n"
    and v: "node_value d n = Some ''a.b@@c.com''"
    and run: "validateForm d (addRegFormValidationRules isNaN d (new_FormValidator cl hs)) = (Inr b, s')"
  shows "\<exists>es K. errors s' = Some es \<and>
           filter (\<lambda>e. error_fieldId e = ''email'') es =
             [Error ''email'' ''The 'at' symbol must be before the 'dot' symbol.''] \<and>
           b = False \<and> calls s' = K \<and>
           FormMethod 1 4 \<in> set K \<and> FormMethod 1 5 \<notin> set K \<and> FormMethod 1 6 \<notin> set K"
proof -
  let ?s = "addRegFormValidationRules isNaN d (new_FormValidator cl hs)"
  let ?vs = "validators ?s"
  note c = validateForm_completes [OF run]
  have i: "1 < length ?vs" by (simp add: regForm_validators)
  have f: "field (?vs ! 1) = Some n" "fieldId (?vs ! 1) = ''email''"
    by (simp_all add: regForm_validators n)
  have rs: "rules (?vs ! 1) = take 4 email_rules @ email_rules ! 4 # drop 5 email_rules"
    by (simp add: regForm_validators email_rules_def)
  have m: "message (email_rules ! 4) = ''The 'at' symbol must be before the 'dot' symbol.''"
    and l: "length (take 4 email_rules) = 4"
    by (simp_all add: email_rules_def)
  have pre: "\<forall>p\<in>set (take 4 email_rules). outcome d (field (?vs ! 1)) p \<noteq> Failed"
    and r: "outcome d (field (?vs ! 1)) (email_rules ! 4) = Failed"
    unfolding f by (rule email_outcomes [OF v])+
  from c have ok: "form_result d ?vs = Inr ()" by simp
  note core = short_circuit_core [OF ok i rs pre r, unfolded f m l]
  define A where "A = form_errors d (take 1 ?vs)"
  define B where "B = form_errors d (drop (Suc 1) ?vs)"
  have es: "form_errors d ?vs =
      A @ [Error ''email'' ''The 'at' symbol must be before the 'dot' symbol.''] @ B"
    unfolding A_def B_def by (rule core(1))
  have A: "filter (\<lambda>e. error_fieldId e = ''email'') A = []"
    unfolding A_def by (rule filter_form_errors_other) (simp add: regForm_validators)
  have B: "filter (\<lambda>e. error_fieldId e = ''email'') B = []"
    unfolding B_def by (rule filter_form_errors_other) (simp add: regForm_validators)
  have "filter (\<lambda>e. error_fieldId e = ''email'') (form_errors d ?vs) =
      [Error ''email'' ''The 'at' symbol must be before the 'dot' symbol.'']"
    by (simp add: es A B)
  moreover have "form_errors d ?vs \<noteq> []"
    by (simp add: es)
  moreover have "FormMethod 1 4 \<in> set (form_calls d 0 ?vs)"
    "FormMethod 1 5 \<notin> set (form_calls d 0 ?vs)" "FormMethod 1 6 \<notin> set (form_calls d 0 ?vs)"
    using core(2,3) by simp_all
  ultimately show ?thesis
    using c by (simp add: regForm_calls)
qed

text \<open>The example page holds that email.\<close>

theorem email_double_at_message_witness:
  "form_elements example_doc ''email'' = Some 1 \<and>
   node_value example_doc 1 = Some ''a.b@@c.com'' \<and>
   validateForm example_doc example_state = (Inr False, snd (validateForm example_doc example_state)) \<and>
   (\<exists>es. errors (snd (validateForm example_doc example_state)) = Some es \<and>
      filter (\<lambda>e. error_fieldId e = ''email'') es =
        [Error ''email'' ''The 'at' symbol must be before the 'dot' symbol.'']) \<and>
   FormMethod 1 5 \<notin> set (calls (snd (validateForm example_doc example_state)))"
proof -
  have n: "form_elements example_doc ''email'' = Some 1"
    and v: "node_value example_doc 1 = Some ''a.b@@c.com''"
    by (simp_all add: example_doc_def example_elements_def)
  have s: "addRegFormValidationRules example_isNaN example_doc (new_FormValidator (\<lambda>n. []) []) =
      example_state"
    by (simp add: example_state_def)
  have run: "validateForm example_doc example_state =
      (Inr False, snd (validateForm example_doc example_state))"
    using example_fst by (simp add: prod_eq_iff)
  from email_double_at_message
    [of example_doc 1 example_isNaN "\<lambda>n. []" "[]" False "snd (validateForm example_doc example_state)",
     unfolded s, OF n v run]
  have "(\<exists>es. errors (snd (validateForm example_doc example_state)) = Some es \<and>
      filter (\<lambda>e. error_fieldId e = ''email'') es =
        [Error ''email'' ''The 'at' symbol must be before the 'dot' symbol.'']) \<and>
   FormMethod 1 5 \<notin> set (calls (snd (validateForm example_doc example_state)))"
    by blast
  with n v run show ?thesis by blast
qed

text \<open>
  Claim C7. \<^verbatim>\<open>addValidator\<close> is a total function that appends one validator to
  \<^verbatim>\<open>this.validators\<close>, whatever the identifier and also for an empty rule list: the
  old validators stay, in place. Registering an identifier twice adds two validators
  for it. The lookup of line 186 returns the first validator with the identifier and
  no other: after a double registration it is an older one if there was one, else the
  first of the two. It returns nothing exactly when no validator carries the
  identifier, and a validator with an empty rule list when that is what was registered;
  \<^verbatim>\<open>validateField\<close> on such a validator returns with the state unchanged, without
  the warning it gives for an unregistered identifier.
\<close>

theorem registry_semantics:
  "validators (addValidator d fid rs s) =
     validators s @ [\<lparr>fieldId = fid, rules = rs, field = form_elements d fid\<rparr>] \<and>
   length (filter (\<lambda>v. fieldId v = fid)
     (validators (addValidator d fid rs2 (addValidator d fid rs1 s)))) =
     length (filter (\<lambda>v. fieldId v = fid) (validators s)) + 2 \<and>
   find_validator vs fid =
     (case filter (\<lambda>v. fieldId v = fid) vs of [] \<Rightarrow> None | v # rest \<Rightarrow> Some v) \<and>
   find_validator (validators (addValidator d fid rs2 (addValidator d fid rs1 s))) fid =
     (case find_validator (validators s) fid of
        Some v \<Rightarrow> Some v
      | None \<Rightarrow> Some \<lparr>fieldId = fid, rules = rs1, field = form_elements d fid\<rparr>) \<and>
   (find_validator vs fid = None) = (fid \<notin> fieldId ` set vs) \<and>
   find_validator (validators (addValidator d fid [] (new_FormValidator cl hs))) fid =
     Some \<lparr>fieldId = fid, rules = [], field = form_elements d fid\<rparr> \<and>
   validateField d fid (addValidator d fid [] (new_FormValidator cl hs)) =
     (Inr (), addValidator d fid [] (new_FormValidator cl hs))"
proof -
  have "find_validator (validators (addValidator d fid rs2 (addValidator d fid rs1 s))) fid =
     (case find_validator (validators s) fid of
        Some v \<Rightarrow> Some v
      | None \<Rightarrow> Some \<lparr>fieldId = fid, rules = rs1, field = form_elements d fid\<rparr>)"
    by (simp add: addValidator_def find_validator_append split: option.splits)
       (simp add: find_validator_def)
  moreover have "find_validator (validators (addValidator d fid [] (new_FormValidator cl hs))) fid =
     Some \<lparr>fieldId = fid, rules = [], field = form_elements d fid\<rparr>"
    by (simp add: addValidator_def new_FormValidator_def find_validator_def)
  moreover have "length (filter (\<lambda>v. fieldId v = fid)
     (validators (addValidator d fid rs2 (addValidator d fid rs1 s)))) =
     length (filter (\<lambda>v. fieldId v = fid) (validators s)) + 2"
    by (simp add: addValidator_def)
  moreover note validateField_no_rules [of d fid cl hs]
  ultimately show ?thesis
    using find_validator_filter [of vs fid] find_validator_None [of vs fid]
    by (simp add: addValidator_def)
qed

text \<open>
  Claim C8. Supersession: \<^verbatim>\<open>validateForm\<close> starts from \<^verbatim>\<open>this.errors = []\<close>, so neither
  the list it leaves nor the value it returns depends on what \<^verbatim>\<open>this.errors\<close> held
  before. A pass on page \<open>d2\<close> after a pass on page \<open>d1\<close> gives the list and the value
  of a pass on \<open>d2\<close> alone; the list is a function of \<open>d2\<close> and the registry only.
\<close>

theorem validateForm_supersedes:
  "errors (snd (validateForm d (s\<lparr>errors := old\<rparr>))) = errors (snd (validateForm d s)) \<and>
   fst (validateForm d (s\<lparr>errors := old\<rparr>)) = fst (validateForm d s) \<and>
   errors (snd (validateForm d2 (snd (validateForm d1 s)))) = errors (snd (validateForm d2 s)) \<and>
   fst (validateForm d2 (snd (validateForm d1 s))) = fst (validateForm d2 s) \<and>
   errors (snd (validateForm d2 (snd (validateForm d1 s)))) = Some (form_errors d2 (validators s))"
  by (simp add: validateForm_errors validateForm_fst validateForm_frame(1) split: sum.splits)

text \<open>
  Claim C9. A full-form pass leaves the registry as it was: \<^verbatim>\<open>this.validators\<close> after
  \<^verbatim>\<open>validateForm\<close> is the same list of the same validators (identifier, rules and
  field of each), whatever the page and the state, and also when the pass throws.
\<close>

theorem validateForm_keeps_registry:
  "validators (snd (validateForm d s)) = validators s"
  by (rule validateForm_frame(1))

text \<open>
  Claim C10. Duplicate registrations. \<^verbatim>\<open>validateForm\<close> visits every entry of
  \<^verbatim>\<open>this.validators\<close>: when two entries \<open>v\<close> and \<open>w\<close> carry the same identifier and
  each has a first failing rule, a pass that returns leaves two records with that
  identifier, the one of \<open>v\<close> before the one of \<open>w\<close>. \<^verbatim>\<open>validateField\<close> runs the
  rules of the first entry with the identifier only: what it returns or throws, the
  class lists and the hints are the same whatever entries \<open>ys\<close> follow that first
  entry, and the callbacks it invokes are callbacks of the first entry's rules, up to
  the point where the loop stops: at the first rule that fails or throws, or, when the
  identifier does not make a selector, at the first rule that passes, where
  \<^verbatim>\<open>removeHint\<close> throws.
\<close>

theorem duplicate_registrations:
  "(validateForm d s = (Inr b, s') \<and> validators s = xs @ v # ys @ w # zs \<and>
    fieldId w = fieldId v \<and>
    rules v = pre1 @ r1 # post1 \<and> (\<forall>p\<in>set pre1. outcome d (field v) p \<noteq> Failed) \<and>
    outcome d (field v) r1 = Failed \<and>
    rules w = pre2 @ r2 # post2 \<and> (\<forall>p\<in>set pre2. outcome d (field w) p \<noteq> Failed) \<and>
    outcome d (field w) r2 = Failed \<longrightarrow>
    (\<exists>A B C. errors s' =
       Some (A @ [Error (fieldId v) (message r1)] @ B @ [Error (fieldId v) (message r2)] @ C))) \<and>
   (fieldId v = f \<and> f \<notin> fieldId ` set xs \<longrightarrow>
    validateField d f (t\<lparr>validators := xs @ v # ys\<rparr>) =
      validateField_rules d f v 0 (rules v) (t\<lparr>validators := xs @ v # ys\<rparr>) \<and>
    fst (validateField d f (t\<lparr>validators := xs @ v # ys\<rparr>)) =
      fst (validateField d f (t\<lparr>validators := xs @ [v]\<rparr>)) \<and>
    classList (snd (validateField d f (t\<lparr>validators := xs @ v # ys\<rparr>))) =
      classList (snd (validateField d f (t\<lparr>validators := xs @ [v]\<rparr>))) \<and>
    hints (snd (validateField d f (t\<lparr>validators := xs @ v # ys\<rparr>))) =
      hints (snd (validateField d f (t\<lparr>validators := xs @ [v]\<rparr>))) \<and>
    calls (snd (validateField d f (t\<lparr>validators := xs @ v # ys\<rparr>))) =
      calls t @ field_calls d f (field v) 0 (rules v))"
proof (intro conjI impI)
  assume h: "validateForm d s = (Inr b, s') \<and> validators s = xs @ v # ys @ w # zs \<and>
    fieldId w = fieldId v \<and>
    rules v = pre1 @ r1 # post1 \<and> (\<forall>p\<in>set pre1. outcome d (field v) p \<noteq> Failed) \<and>
    outcome d (field v) r1 = Failed \<and>
    rules w = pre2 @ r2 # post2 \<and> (\<forall>p\<in>set pre2. outcome d (field w) p \<noteq> Failed) \<and>
    outcome d (field w) r2 = Failed"
  then have run: "validateForm d s = (Inr b, s')" by simp
  note c = validateForm_completes [OF run]
  from h c have ok: "form_result d (xs @ v # ys @ w # zs) = Inr ()" by simp
  from h have hv: "rules v = pre1 @ r1 # post1"
    "\<forall>p\<in>set pre1. outcome d (field v) p \<noteq> Failed" "outcome d (field v) r1 = Failed"
    and hw: "rules w = pre2 @ r2 # post2"
    "\<forall>p\<in>set pre2. outcome d (field w) p \<noteq> Failed" "outcome d (field w) r2 = Failed"
    by blast+
  have "form_errors d (xs @ v # ys @ w # zs) =
         form_errors d xs @ [Error (fieldId v) (message r1)] @ form_errors d ys @
         [Error (fieldId w) (message r2)] @ form_errors d zs"
    by (rule rules_first_failures_two [OF ok hv hw])
  with h c have "errors s' = Some (form_errors d xs @ [Error (fieldId v) (message r1)] @
      form_errors d ys @ [Error (fieldId v) (message r2)] @ form_errors d zs)"
    by simp
  then show "\<exists>A B C. errors s' =
       Some (A @ [Error (fieldId v) (message r1)] @ B @ [Error (fieldId v) (message r2)] @ C)"
    by blast
next
  assume h: "fieldId v = f \<and> f \<notin> fieldId ` set xs"
  then have m: "find_validator (xs @ v # ys) f = Some v" "find_validator (xs @ [v]) f = Some v"
    using validateField_first_match by blast+
  let ?long = "t\<lparr>validators := xs @ v # ys\<rparr>" and ?short = "t\<lparr>validators := xs @ [v]\<rparr>"
  have vf: "validateField d f ?long = validateField_rules d f v 0 (rules v) ?long"
    "validateField d f ?short = validateField_rules d f v 0 (rules v) ?short"
    using m by (simp_all add: validateField_def)
  have cong: "fst (validateField_rules d f v 0 (rules v) ?long) =
        fst (validateField_rules d f v 0 (rules v) ?short) \<and>
      classList (snd (validateField_rules d f v 0 (rules v) ?long)) =
        classList (snd (validateField_rules d f v 0 (rules v) ?short)) \<and>
      hints (snd (validateField_rules d f v 0 (rules v) ?long)) =
        hints (snd (validateField_rules d f v 0 (rules v) ?short))"
    by (rule validateField_rules_cong) simp_all
  show "validateField d f ?long = validateField_rules d f v 0 (rules v) ?long"
    by (rule vf(1))
  show "fst (validateField d f ?long) = fst (validateField d f ?short)"
    using cong by (simp add: vf)
  show "classList (snd (validateField d f ?long)) = classList (snd (validateField d f ?short))"
    using cong by (simp add: vf)
  show "hints (snd (validateField d f ?long)) = hints (snd (validateField d f ?short))"
    using cong by (simp add: vf)
  show "calls (snd (validateField d f ?long)) = calls t @ field_calls d f (field v) 0 (rules v)"
    by (simp add: vf validateField_rules_calls)
qed

text \<open>
  With \<open>name\<close> registered twice on the example page, the pass leaves two records for
  \<open>name\<close>, and \<^verbatim>\<open>validateField('name')\<close> invokes two methods, those of the first two
  rules of the first entry. With \<open>1st\<close> registered twice, \<^verbatim>\<open>validateField('1st')\<close>
  invokes the first method of the first entry, which passes, and throws a SyntaxError.
\<close>

theorem duplicate_registrations_witness:
  "validateForm example_doc example_duplicates =
     (Inr False, snd (validateForm example_doc example_duplicates)) \<and>
   validators example_duplicates =
     [] @ \<lparr>fieldId = ''name'', rules = name_rules, field = Some 0\<rparr> #
     [] @ \<lparr>fieldId = ''name'', rules = email_rules, field = Some 0\<rparr> # [] \<and>
   outcome example_doc (Some 0) (name_rules ! 1) = Failed \<and>
   outcome example_doc (Some 0) (email_rules ! 1) = Failed \<and>
   (\<exists>A B C. errors (snd (validateForm example_doc example_duplicates)) =
      Some (A @ [Error ''name'' ''Name must be at least 3 characters long''] @ B @
            [Error ''name'' ''Enter the 'at' symbol in the email address.''] @ C)) \<and>
   calls (snd (validateField example_doc ''name'' example_duplicates)) =
     [FieldMethod ''name'' 0, FieldMethod ''name'' 1] \<and>
   fst (validateField example_doc ''name'' example_duplicates) = Inr () \<and>
   validators example_1st =
     [] @ \<lparr>fieldId = ''1st'', rules = name_rules, field = Some 0\<rparr> #
     [\<lparr>fieldId = ''1st'', rules = email_rules, field = Some 0\<rparr>] \<and>
   calls (snd (validateField example_1st_page ''1st'' example_1st)) = [FieldMethod ''1st'' 0] \<and>
   fst (validateField example_1st_page ''1st'' example_1st) = Inl SyntaxError"
proof -
  let ?v = "\<lparr>fieldId = ''name'', rules = name_rules, field = Some 0\<rparr>"
  let ?w = "\<lparr>fieldId = ''name'', rules = email_rules, field = Some 0\<rparr>"
  have run: "validateForm example_doc example_duplicates =
      (Inr False, snd (validateForm example_doc example_duplicates))"
    using duplicates_fst by (simp add: prod_eq_iff)
  have vs: "validators example_duplicates = [] @ ?v # [] @ ?w # []"
    by (simp add: duplicates_validators)
  have rv: "rules ?v = [name_rules ! 0] @ name_rules ! 1 # [name_rules ! 2]"
    and rw: "rules ?w = [email_rules ! 0] @ email_rules ! 1 # drop 2 email_rules"
    by (simp_all add: name_rules_def email_rules_def)
  have pv: "\<forall>p\<in>set [name_rules ! 0]. outcome example_doc (field ?v) p \<noteq> Failed"
    and pw: "\<forall>p\<in>set [email_rules ! 0]. outcome example_doc (field ?w) p \<noteq> Failed"
    and fv: "outcome example_doc (field ?v) (name_rules ! 1) = Failed"
    and fw: "outcome example_doc (field ?w) (email_rules ! 1) = Failed"
    using duplicates_outcomes by simp_all
  have m: "message (name_rules ! 1) = ''Name must be at least 3 characters long''"
    "message (email_rules ! 1) = ''Enter the 'at' symbol in the email address.''"
    by (simp_all add: name_rules_def email_rules_def)
  have t: "example_duplicates\<lparr>validators := [] @ ?v # [?w]\<rparr> = example_duplicates"
    by (simp add: duplicates_validators [symmetric])
  obtain sel where sel: "querySelectorAll example_doc (hint_selector ''name'') = Inr sel"
    using name_selector by blast
  have k: "field_calls example_doc ''name'' (field ?v) 0 (rules ?v) =
      [FieldMethod ''name'' 0, FieldMethod ''name'' 1]"
    using duplicates_outcomes sel by (simp add: name_rules_def rule_calls_def)
  have c: "calls example_duplicates = []"
    by (simp add: example_duplicates_def addValidator_def new_FormValidator_def)
  have ids: "fieldId ?w = fieldId ?v" by simp
  have hyp: "validateForm example_doc example_duplicates =
      (Inr False, snd (validateForm example_doc example_duplicates)) \<and>
    validators example_duplicates = [] @ ?v # [] @ ?w # [] \<and>
    fieldId ?w = fieldId ?v \<and>
    rules ?v = [name_rules ! 0] @ name_rules ! 1 # [name_rules ! 2] \<and>
    (\<forall>p\<in>set [name_rules ! 0]. outcome example_doc (field ?v) p \<noteq> Failed) \<and>
    outcome example_doc (field ?v) (name_rules ! 1) = Failed \<and>
    rules ?w = [email_rules ! 0] @ email_rules ! 1 # drop 2 email_rules \<and>
    (\<forall>p\<in>set [email_rules ! 0]. outcome example_doc (field ?w) p \<noteq> Failed) \<and>
    outcome example_doc (field ?w) (email_rules ! 1) = Failed"
    using run vs ids rv pv fv rw pw fw by (intro conjI) assumption+
  note inst = duplicate_registrations [where d = example_doc and s = example_duplicates
      and b = False and s' = "snd (validateForm example_doc example_duplicates)"
      and xs = "[]" and v = ?v and ys = "[]" and w = ?w and zs = "[]"
      and ?pre1.0 = "[name_rules ! 0]" and ?r1.0 = "name_rules ! 1" and ?post1.0 = "[name_rules ! 2]"
      and ?pre2.0 = "[email_rules ! 0]" and ?r2.0 = "email_rules ! 1"
      and ?post2.0 = "drop 2 email_rules", THEN conjunct1, THEN mp, OF hyp]
  have e: "\<exists>A B C. errors (snd (validateForm example_doc example_duplicates)) =
      Some (A @ [Error ''name'' ''Name must be at least 3 characters long''] @ B @
            [Error ''name'' ''Enter the 'at' symbol in the email address.''] @ C)"
    using inst unfolding m by simp
  have hyp2: "fieldId ?v = ''name'' \<and> ''name'' \<notin> fieldId ` set []" by simp
  note inst2 = duplicate_registrations [where d = example_doc and xs = "[]" and v = ?v
      and ys = "[?w]" and f = "''name''" and t = example_duplicates,
      THEN conjunct2, THEN mp, OF hyp2]
  from inst2 have "calls (snd (validateField example_doc ''name''
        (example_duplicates\<lparr>validators := [] @ ?v # [?w]\<rparr>))) =
      calls example_duplicates @ field_calls example_doc ''name'' (field ?v) 0 (rules ?v)"
    by (elim conjE)
  then have k': "calls (snd (validateField example_doc ''name'' example_duplicates)) =
     [FieldMethod ''name'' 0, FieldMethod ''name'' 1]"
    unfolding t k c by simp
  have r: "fst (validateField example_doc ''name'' example_duplicates) = Inr ()"
    by (rule duplicates_field_fst)
  let ?a = "\<lparr>fieldId = ''1st'', rules = name_rules, field = Some 0\<rparr>"
  let ?b = "\<lparr>fieldId = ''1st'', rules = email_rules, field = Some 0\<rparr>"
  have vs1: "validators example_1st = [] @ ?a # [?b]"
    by (simp add: first_validators)
  have t1: "example_1st\<lparr>validators := [] @ ?a # [?b]\<rparr> = example_1st"
    by (simp add: first_validators [symmetric])
  have c1: "calls example_1st = []"
    by (simp add: example_1st_def addValidator_def new_FormValidator_def)
  have k1: "field_calls example_1st_page ''1st'' (field ?a) 0 (rules ?a) = [FieldMethod ''1st'' 0]"
    using first_outcome first_selector by (simp add: name_rules_def rule_calls_def)
  have hyp3: "fieldId ?a = ''1st'' \<and> ''1st'' \<notin> fieldId ` set []" by simp
  note inst3 = duplicate_registrations [where d = example_1st_page and xs = "[]" and v = ?a
      and ys = "[?b]" and f = "''1st''" and t = example_1st,
      THEN conjunct2, THEN mp, OF hyp3]
  from inst3 have "calls (snd (validateField example_1st_page ''1st''
        (example_1st\<lparr>validators := [] @ ?a # [?b]\<rparr>))) =
      calls example_1st @ field_calls example_1st_page ''1st'' (field ?a) 0 (rules ?a)"
    by (elim conjE)
  then have k1': "calls (snd (validateField example_1st_page ''1st'' example_1st)) =
      [FieldMethod ''1st'' 0]"
    unfolding t1 k1 c1 by simp
  have r1: "fst (validateField example_1st_page ''1st'' example_1st) = Inl SyntaxError"
    by (rule first_field_fst)
  show ?thesis
    using run vs fv fw e k' r vs1 k1' r1 by (intro conjI) (simp_all only: validator.simps)
qed

end
